theory Spec2Isabelle
  imports Main "HOL-Library.Multiset"
begin

section \<open>Data model (app/models.py)\<close>

datatype DifficultyLevel = BEGINNER | INTERMEDIATE | ADVANCED

datatype MeditationType =
  BREATHING | MINDFULNESS | BODY_SCAN | LOVING_KINDNESS | CONCENTRATION | WALKING | VISUALIZATION

text \<open>
  One row of the table \<^verbatim>\<open>meditation_instructions\<close>. Python integers are unbounded, so
  they are \<^typ>\<open>int\<close>; an \<^verbatim>\<open>Optional[int]\<close> is an \<^typ>\<open>int option\<close>. The primary key
  \<^verbatim>\<open>id\<close> is called \<open>instruction_id\<close> here (\<open>id\<close> is the identity function of HOL).
  The \<^verbatim>\<open>created_at\<close> time stamp is read by no operation and is left out.
\<close>

record MeditationInstruction =
  instruction_id :: "int option"
  session_id :: int
  step_order :: int
  instruction_text :: string
  duration_seconds :: "int option"
  is_pause :: bool

text \<open>
  One row of \<^verbatim>\<open>meditation_sessions\<close>, with the relationship attribute
  \<^verbatim>\<open>instructions\<close> as a list. The primary key \<^verbatim>\<open>id\<close> is \<open>session_pk\<close>.
\<close>

record MeditationSession =
  session_pk :: "int option"
  title :: string
  description :: string
  meditation_type :: MeditationType
  difficulty_level :: DifficultyLevel
  duration_minutes :: int
  is_active :: bool
  instructions :: "MeditationInstruction list"

text \<open>The creation schemas \<^verbatim>\<open>MeditationSessionCreate\<close> and \<^verbatim>\<open>MeditationInstructionCreate\<close>;
  their fields carry the prefix \<open>new_\<close> to keep them apart from the fields of the rows.\<close>

record MeditationSessionCreate =
  new_title :: string
  new_description :: string
  new_meditation_type :: MeditationType
  new_difficulty_level :: DifficultyLevel
  new_duration_minutes :: int

record MeditationInstructionCreate =
  new_session_id :: int
  new_step_order :: int
  new_instruction_text :: string
  new_duration_seconds :: "int option"
  new_is_pause :: bool

section \<open>Errors\<close>

text \<open>
  The exceptions that the modelled code can raise: Python's \<^verbatim>\<open>IndexError\<close>, and the
  \<^verbatim>\<open>InvalidRequestError\<close> of the object-relational mapper. A function that can raise
  returns a value of \<open>error + 'a\<close>, with \<open>Inl\<close> for the exception.
\<close>

datatype error = IndexError | InvalidRequestError

section \<open>The mapping of the models (app/models.py)\<close>

text \<open>
  The mapper knows the relationships that the class bodies declare with
  \<^verbatim>\<open>Relationship(back_populates=...)\<close>: \<^verbatim>\<open>MeditationSession.instructions\<close>,
  \<^verbatim>\<open>MeditationInstruction.session\<close> and \<^verbatim>\<open>MeditationCategory.sessions\<close>. The assignment
  \<^verbatim>\<open>MeditationSession.categories = Relationship(...)\<close> of line 89 comes after the class
  was created: it sets a plain attribute, and the mapper never sees it.
\<close>

datatype model_class =
  MeditationSession_class | MeditationInstruction_class | SessionCategoryLink_class
  | MeditationCategory_class

record mapped_relationship =
  rel_class :: model_class
  rel_name :: string
  rel_target :: model_class
  rel_back_populates :: string

definition models_relationships :: "mapped_relationship list" where
  "models_relationships =
     [\<lparr>rel_class = MeditationSession_class, rel_name = ''instructions'',
       rel_target = MeditationInstruction_class, rel_back_populates = ''session''\<rparr>,
      \<lparr>rel_class = MeditationInstruction_class, rel_name = ''session'',
       rel_target = MeditationSession_class, rel_back_populates = ''instructions''\<rparr>,
      \<lparr>rel_class = MeditationCategory_class, rel_name = ''sessions'',
       rel_target = MeditationSession_class, rel_back_populates = ''categories''\<rparr>]"

text \<open>
  The mappers are configured together at the first use of any mapped class (the first
  instance made, the first query). Configuration raises \<^verbatim>\<open>InvalidRequestError\<close> when the
  \<^verbatim>\<open>back_populates\<close> of a relationship names no mapped relationship of its target class,
  and every later use of a mapped class then raises again.
\<close>

definition configure_mappers :: "mapped_relationship list \<Rightarrow> error + unit" where
  "configure_mappers rels =
     (if list_all
           (\<lambda>r. list_ex (\<lambda>q. rel_class q = rel_target r \<and> rel_name q = rel_back_populates r) rels)
           rels
      then Inr () else Inl InvalidRequestError)"

section \<open>The store and the query service (app/meditation_service.py)\<close>

text \<open>
  The database behind \<^verbatim>\<open>get_session()\<close>: the session table is keyed by its primary key,
  the instruction table is the list of its rows in the order of insertion, and the two
  counters are the next keys that the database assigns.
\<close>

record database =
  session_table :: "int \<rightharpoonup> MeditationSession"
  instruction_table :: "MeditationInstruction list"
  next_session_pk :: int
  next_instruction_id :: int

definition empty_db :: database where
  "empty_db = \<lparr>session_table = Map.empty, instruction_table = [],
     next_session_pk = 1, next_instruction_id = 1\<rparr>"

text \<open>\<^verbatim>\<open>create_session\<close>: builds the row (\<^verbatim>\<open>is_active\<close> defaults to true), stores it and
  returns it with the key the database gave it. Making the instance
  \<^verbatim>\<open>MeditationSession(...)\<close> is a use of a mapped class.\<close>

definition create_session ::
  "database \<Rightarrow> MeditationSessionCreate \<Rightarrow> error + database \<times> MeditationSession" where
  "create_session db session_data =
     (case configure_mappers models_relationships of
        Inl e \<Rightarrow> Inl e
      | Inr u \<Rightarrow>
          let meditation_session =
                \<lparr>session_pk = Some (next_session_pk db),
                 title = new_title session_data,
                 description = new_description session_data,
                 meditation_type = new_meditation_type session_data,
                 difficulty_level = new_difficulty_level session_data,
                 duration_minutes = new_duration_minutes session_data,
                 is_active = True,
                 instructions = []\<rparr>
          in Inr (db\<lparr>session_table := (session_table db)(next_session_pk db \<mapsto> meditation_session),
                      next_session_pk := next_session_pk db + 1\<rparr>,
                  meditation_session))"

text \<open>\<^verbatim>\<open>add_instruction\<close>: appends one row to the instruction table. Making the instance
  \<^verbatim>\<open>MeditationInstruction(...)\<close> is a use of a mapped class.\<close>

definition add_instruction ::
  "database \<Rightarrow> MeditationInstructionCreate \<Rightarrow> error + database \<times> MeditationInstruction" where
  "add_instruction db instruction_data =
     (case configure_mappers models_relationships of
        Inl e \<Rightarrow> Inl e
      | Inr u \<Rightarrow>
          let instruction =
                \<lparr>instruction_id = Some (next_instruction_id db),
                 session_id = new_session_id instruction_data,
                 step_order = new_step_order instruction_data,
                 instruction_text = new_instruction_text instruction_data,
                 duration_seconds = new_duration_seconds instruction_data,
                 is_pause = new_is_pause instruction_data\<rparr>
          in Inr (db\<lparr>instruction_table := instruction_table db @ [instruction],
                      next_instruction_id := next_instruction_id db + 1\<rparr>,
                  instruction))"

text \<open>
  The query \<^verbatim>\<open>select(MeditationInstruction).where(session_id == id).order_by("step_order")\<close>
  of \<^verbatim>\<open>get_session_by_id\<close>: the filter of the instruction table followed by a sort on the
  key \<open>step_order\<close>; rows with equal keys stay in the order of the table.
\<close>

definition select_instructions :: "database \<Rightarrow> int \<Rightarrow> MeditationInstruction list" where
  "select_instructions db sid =
     sort_key step_order (filter (\<lambda>i. session_id i = sid) (instruction_table db))"

text \<open>
  \<^verbatim>\<open>get_session_by_id\<close>. \<open>Inr None\<close> is the result \<^verbatim>\<open>None\<close>. For \<^verbatim>\<open>None\<close> the function returns
  before it touches the database; for an id, \<^verbatim>\<open>session.get(MeditationSession, id)\<close> is the
  first use of a mapped class.
\<close>

definition get_session_by_id ::
  "database \<Rightarrow> int option \<Rightarrow> error + MeditationSession option" where
  "get_session_by_id db sid_opt =
     (case sid_opt of
        None \<Rightarrow> Inr None
      | Some sid \<Rightarrow>
          (case configure_mappers models_relationships of
             Inl e \<Rightarrow> Inl e
           | Inr u \<Rightarrow>
               (case session_table db sid of
                  None \<Rightarrow> Inr None
                | Some meditation_session \<Rightarrow>
                    Inr (Some (meditation_session\<lparr>instructions := select_instructions db sid\<rparr>)))))"

section \<open>Python list and string primitives used by the player\<close>

text \<open>\<^verbatim>\<open>xs[i]\<close>: a negative index counts from the end, an index out of range raises.\<close>

definition py_index :: "'a list \<Rightarrow> int \<Rightarrow> error + 'a" where
  "py_index xs i =
     (if 0 \<le> i \<and> i < int (length xs) then Inr (xs ! nat i)
      else if i < 0 \<and> 0 \<le> int (length xs) + i then Inr (xs ! nat (int (length xs) + i))
      else Inl IndexError)"

text \<open>\<^verbatim>\<open>xs[:k]\<close>: never raises; a negative bound counts from the end.\<close>

definition py_slice_to :: "'a list \<Rightarrow> int \<Rightarrow> 'a list" where
  "py_slice_to xs k = (if k < 0 then take (nat (int (length xs) + k)) xs else take (nat k) xs)"

text \<open>\<^verbatim>\<open>d or 0\<close> for an optional integer: \<^verbatim>\<open>None\<close> and \<open>0\<close> both give \<open>0\<close>.\<close>

definition or_zero :: "int option \<Rightarrow> int" where
  "or_zero d = (case d of None \<Rightarrow> 0 | Some v \<Rightarrow> v)"

definition digit_char :: "nat \<Rightarrow> char" where
  "digit_char n = ''0123456789'' ! (n mod 10)"

fun decimal :: "nat \<Rightarrow> string" where
  "decimal n = (if n < 10 then [digit_char n] else decimal (n div 10) @ [digit_char n])"

declare decimal.simps [simp del]

text \<open>\<^verbatim>\<open>str(i)\<close> and the format \<^verbatim>\<open>{i:02d}\<close> (the sign counts for the width).\<close>

definition py_str :: "int \<Rightarrow> string" where
  "py_str i = (if i < 0 then CHR ''-'' # decimal (nat (- i)) else decimal (nat i))"

definition py_format_02d :: "int \<Rightarrow> string" where
  "py_format_02d i = (if length (py_str i) < 2 then CHR ''0'' # py_str i else py_str i)"

section \<open>The player (app/meditation_player.py)\<close>

text \<open>
  The environment of the player is the user interface toolkit. A call
  \<^verbatim>\<open>ui.timer(d, callback, once=True)\<close> makes a one-shot timer object that is pending until
  it either fires (its callback runs once, \<open>d\<close> seconds later) or is cancelled; a timer that
  was cancelled never runs its callback, and cancelling a timer that has fired changes
  nothing. The callback of every timer of the player is \<^verbatim>\<open>_advance_to_next_step\<close>.
\<close>

datatype timer_state = Pending int | Fired | Cancelled

fun is_pending :: "timer_state \<Rightarrow> bool" where
  "is_pending (Pending d) = True"
| "is_pending Fired = False"
| "is_pending Cancelled = False"

text \<open>\<^verbatim>\<open>t.cancel()\<close> on the timer object with handle \<open>h\<close>.\<close>

definition cancel :: "nat \<Rightarrow> timer_state list \<Rightarrow> timer_state list" where
  "cancel h ts = (if h < length ts \<and> is_pending (ts ! h) then ts[h := Cancelled] else ts)"

text \<open>
  The texts that the player writes on its play button: \<^verbatim>\<open>Start\<close>, \<^verbatim>\<open>Pause\<close>,
  \<^verbatim>\<open>Resume\<close> and \<^verbatim>\<open>Complete\<close>, each behind a pictogram. Nothing else is ever written on
  the button.
\<close>

datatype button_text = BtnStart | BtnPause | BtnResume | BtnComplete

text \<open>
  The instruction label is one text widget. \<^verbatim>\<open>create()\<close> writes the invitation to click
  play on it, \<^verbatim>\<open>_update_display\<close> the text of an instruction and
  \<^verbatim>\<open>_meditation_complete\<close> the closing message, all as plain text: an instruction whose
  text is the closing message cannot be told from it. Strings are the lists of the bytes
  of their UTF-8 encoding; the closing message starts with the four bytes of its
  pictogram.
\<close>

definition click_play_message :: string where
  "click_play_message = ''Click play to begin your meditation journey''"

definition complete_message :: string where
  "complete_message =
     [CHR 0xF0, CHR 0x9F, CHR 0x99, CHR 0x8F] @
     '' Meditation complete. Take a moment to notice how you feel.''"

text \<open>
  The fields of \<^verbatim>\<open>MeditationPlayer\<close>. \<open>timer\<close> is the reference \<^verbatim>\<open>self.timer\<close>: the
  handle of a timer object, an index into \<open>timers\<close>, the list of all timer objects made so
  far. The four labels are the widgets that \<^verbatim>\<open>create()\<close> builds before any handler can
  run; the progress bar holds a floating point quotient that no handler reads back, and
  is left out.
\<close>

record MeditationPlayer =
  session :: "MeditationSession option"
  current_step :: int
  is_playing :: bool
  is_paused :: bool
  timer :: "nat option"
  timers :: "timer_state list"
  instruction_label :: string
  step_info_label :: string
  time_label :: string
  play_button :: button_text

text \<open>\<^verbatim>\<open>self.session.instructions\<close>, empty when there is no session: the test
  \<^verbatim>\<open>not self.session or not self.session.instructions\<close> is \<open>instrs_of s = []\<close>.\<close>

definition instrs_of :: "MeditationPlayer \<Rightarrow> MeditationInstruction list" where
  "instrs_of s = (case session s of None \<Rightarrow> [] | Some m \<Rightarrow> instructions m)"

text \<open>\<^verbatim>\<open>if self.timer: self.timer.cancel(); self.timer = None\<close>\<close>

definition stop_timer :: "MeditationPlayer \<Rightarrow> MeditationPlayer" where
  "stop_timer s =
     (case timer s of
        None \<Rightarrow> s
      | Some h \<Rightarrow> s\<lparr>timer := None, timers := cancel h (timers s)\<rparr>)"

text \<open>\<^verbatim>\<open>self.timer = ui.timer(d, self._advance_to_next_step, once=True)\<close>\<close>

definition arm_timer :: "int \<Rightarrow> MeditationPlayer \<Rightarrow> MeditationPlayer" where
  "arm_timer d s = s\<lparr>timer := Some (length (timers s)), timers := timers s @ [Pending d]\<rparr>"

text \<open>The elapsed time of \<^verbatim>\<open>_update_display\<close>:
  \<^verbatim>\<open>sum(inst.duration_seconds or 0 for inst in instructions[:current_step])\<close>,
  and its rendering \<^verbatim>\<open>f"{minutes:02d}:{seconds:02d}"\<close>.\<close>

definition current_time :: "MeditationInstruction list \<Rightarrow> int \<Rightarrow> int" where
  "current_time instrs k =
     sum_list (map (\<lambda>inst. or_zero (duration_seconds inst)) (py_slice_to instrs k))"

definition format_time :: "int \<Rightarrow> string" where
  "format_time t = py_format_02d (t div 60) @ '':'' @ py_format_02d (t mod 60)"

definition update_display :: "MeditationPlayer \<Rightarrow> error + MeditationPlayer" where
  "update_display s =
     (if instrs_of s = [] then Inr s
      else
        let total_steps = int (length (instrs_of s));
            s1 = s\<lparr>step_info_label :=
                     ''Step '' @ py_str (current_step s + 1) @ '' of '' @ py_str total_steps\<rparr>;
            shown = format_time (current_time (instrs_of s) (current_step s))
        in if current_step s < total_steps
           then (case py_index (instrs_of s) (current_step s) of
                   Inl e \<Rightarrow> Inl e
                 | Inr instruction \<Rightarrow>
                     Inr (s1\<lparr>instruction_label := instruction_text instruction,
                              time_label := shown\<rparr>))
           else Inr (s1\<lparr>time_label := shown\<rparr>))"

definition meditation_complete :: "MeditationPlayer \<Rightarrow> MeditationPlayer" where
  "meditation_complete s =
     stop_timer (s\<lparr>is_playing := False, play_button := BtnComplete,
                   instruction_label := complete_message\<rparr>)"

definition start_current_step :: "MeditationPlayer \<Rightarrow> error + MeditationPlayer" where
  "start_current_step s =
     (if instrs_of s = [] then Inr s
      else if current_step s \<ge> int (length (instrs_of s)) then Inr (meditation_complete s)
      else
        (case py_index (instrs_of s) (current_step s) of
           Inl e \<Rightarrow> Inl e
         | Inr instruction \<Rightarrow>
             (case update_display s of
                Inl e \<Rightarrow> Inl e
              | Inr s1 \<Rightarrow>
                  (case duration_seconds instruction of
                     None \<Rightarrow> Inr s1
                   | Some d \<Rightarrow> if d \<noteq> 0 \<and> d > 0 then Inr (arm_timer d s1) else Inr s1))))"

definition advance_to_next_step :: "MeditationPlayer \<Rightarrow> error + MeditationPlayer" where
  "advance_to_next_step s =
     (if \<not> is_playing s then Inr s
      else
        let s1 = s\<lparr>current_step := current_step s + 1\<rparr>
        in if session s1 = None \<or> current_step s1 \<ge> int (length (instrs_of s1))
           then Inr (meditation_complete s1)
           else start_current_step s1)"

definition start_meditation :: "MeditationPlayer \<Rightarrow> error + MeditationPlayer" where
  "start_meditation s =
     (if instrs_of s = [] then Inr s
      else
        let s1 = s\<lparr>is_playing := True, is_paused := False, play_button := BtnPause\<rparr>
        in if current_step s1 < int (length (instrs_of s1)) then start_current_step s1
           else Inr s1)"

definition pause_meditation :: "MeditationPlayer \<Rightarrow> MeditationPlayer" where
  "pause_meditation s =
     stop_timer (s\<lparr>is_playing := False, is_paused := True, play_button := BtnResume\<rparr>)"

definition toggle_play :: "MeditationPlayer \<Rightarrow> error + MeditationPlayer" where
  "toggle_play s =
     (if instrs_of s = [] then Inr s
      else if \<not> is_playing s then start_meditation s
      else Inr (pause_meditation s))"

definition restart :: "MeditationPlayer \<Rightarrow> error + MeditationPlayer" where
  "restart s =
     update_display
       ((stop_timer s)\<lparr>current_step := 0, is_playing := False, is_paused := False,
                        play_button := BtnStart\<rparr>)"

definition previous_step :: "MeditationPlayer \<Rightarrow> error + MeditationPlayer" where
  "previous_step s =
     (if current_step s > 0
      then (case update_display ((stop_timer s)\<lparr>current_step := current_step s - 1\<rparr>) of
              Inl e \<Rightarrow> Inl e
            | Inr s1 \<Rightarrow> if is_playing s1 then start_current_step s1 else Inr s1)
      else Inr s)"

definition next_step :: "MeditationPlayer \<Rightarrow> error + MeditationPlayer" where
  "next_step s =
     (if instrs_of s = [] then Inr s
      else if current_step s < int (length (instrs_of s)) - 1
      then (case update_display ((stop_timer s)\<lparr>current_step := current_step s + 1\<rparr>) of
              Inl e \<Rightarrow> Inl e
            | Inr s1 \<Rightarrow> if is_playing s1 then start_current_step s1 else Inr s1)
      else Inr s)"

text \<open>
  \<^verbatim>\<open>MeditationPlayer(session_id)\<close> followed by \<^verbatim>\<open>create()\<close>: the constructor loads the
  session, \<^verbatim>\<open>create()\<close> builds the widgets with their first texts and ends with
  \<^verbatim>\<open>_update_display()\<close>. Without a session \<^verbatim>\<open>create()\<close> shows \<^verbatim>\<open>Session not found\<close>
  and builds no button, so that no handler can ever run.
\<close>

definition new_player :: "MeditationSession option \<Rightarrow> MeditationPlayer" where
  "new_player loaded =
     \<lparr>session = loaded, current_step = 0, is_playing = False, is_paused = False,
      timer = None, timers = [],
      instruction_label = click_play_message, step_info_label = ''Step 0 of 0'',
      time_label = ''00:00'', play_button = BtnStart\<rparr>"

definition load_player :: "database \<Rightarrow> int \<Rightarrow> error + MeditationPlayer" where
  "load_player db sid =
     (case get_session_by_id db (Some sid) of
        Inl e \<Rightarrow> Inl e
      | Inr loaded \<Rightarrow> Inr (new_player loaded))"

definition create :: "MeditationPlayer \<Rightarrow> error + MeditationPlayer" where
  "create s = (if session s = None then Inr s else update_display s)"

subsection \<open>Events and reachable states\<close>

text \<open>
  What can happen to a player: a click on one of its four buttons, or the firing of the
  timer object with handle \<open>h\<close>. Only a pending timer fires; it then is no longer pending
  and runs its callback. Time is abstracted: a pending timer may fire at any moment.
\<close>

datatype event = TogglePlay | PreviousStep | NextStep | Restart | TimerFire nat

fun step :: "event \<Rightarrow> MeditationPlayer \<Rightarrow> error + MeditationPlayer" where
  "step TogglePlay s = toggle_play s"
| "step PreviousStep s = previous_step s"
| "step NextStep s = next_step s"
| "step Restart s = restart s"
| "step (TimerFire h) s =
     (if h < length (timers s) \<and> is_pending (timers s ! h)
      then advance_to_next_step (s\<lparr>timers := (timers s)[h := Fired]\<rparr>)
      else Inr s)"

fun run :: "event list \<Rightarrow> MeditationPlayer \<Rightarrow> error + MeditationPlayer" where
  "run [] s = Inr s"
| "run (e # es) s = (case step e s of Inl err \<Rightarrow> Inl err | Inr s1 \<Rightarrow> run es s1)"

inductive reachable :: "MeditationSession \<Rightarrow> MeditationPlayer \<Rightarrow> bool" for m where
  reachable_create: "create (new_player (Some m)) = Inr s \<Longrightarrow> reachable m s"
| reachable_step: "reachable m s \<Longrightarrow> step e s = Inr s1 \<Longrightarrow> reachable m s1"

text \<open>
  The four modes of the specification, read off the state. The player keeps no mode:
  it keeps the two flags, and completing a session leaves both flags off with the index
  one past the last instruction.
\<close>

datatype mode = Idle | Playing | Paused | Complete

definition mode_of :: "MeditationPlayer \<Rightarrow> mode" where
  "mode_of s =
     (if is_playing s then Playing
      else if is_paused s then Paused
      else if instrs_of s \<noteq> [] \<and> current_step s \<ge> int (length (instrs_of s)) then Complete
      else Idle)"

text \<open>The handles of the timers that are pending.\<close>

definition pending_timers :: "MeditationPlayer \<Rightarrow> nat list" where
  "pending_timers s = filter (\<lambda>h. is_pending (timers s ! h)) [0..<length (timers s)]"

section \<open>Invariants and auxiliary notions\<close>

text \<open>At most the timer that \<open>r\<close> refers to is pending.\<close>

definition only_pending :: "nat option \<Rightarrow> timer_state list \<Rightarrow> bool" where
  "only_pending r ts \<longleftrightarrow> (\<forall>h<length ts. is_pending (ts ! h) \<longrightarrow> r = Some h)"

text \<open>The state that \<^verbatim>\<open>_update_display\<close> leaves when the index is not negative.\<close>

definition refreshed :: "MeditationPlayer \<Rightarrow> MeditationPlayer" where
  "refreshed s =
     s\<lparr>instruction_label :=
               (if instrs_of s \<noteq> [] \<and> current_step s < int (length (instrs_of s))
                then instruction_text (instrs_of s ! nat (current_step s))
                else instruction_label s),
             step_info_label :=
               (if instrs_of s = [] then step_info_label s
                else ''Step '' @ py_str (current_step s + 1) @ '' of '' @ py_str (int (length (instrs_of s)))),
             time_label :=
               (if instrs_of s = [] then time_label s
                else format_time (current_time (instrs_of s) (current_step s)))\<rparr>"

text \<open>The invariant of the control state: the index is within bounds, the two flags exclude
  each other, and a pending timer is the one in \<^verbatim>\<open>self.timer\<close>, armed while playing for the
  duration of the current instruction.\<close>

definition player_inv :: "MeditationSession \<Rightarrow> MeditationPlayer \<Rightarrow> bool" where
  "player_inv m s \<longleftrightarrow>
     session s = Some m \<and>
     0 \<le> current_step s \<and> current_step s \<le> int (length (instructions m)) \<and>
     (is_playing s \<longrightarrow> \<not> is_paused s \<and> instructions m \<noteq> []) \<and>
     only_pending (timer s) (timers s) \<and>
     (\<forall>h<length (timers s). is_pending (timers s ! h) \<longrightarrow>
        is_playing s \<and> current_step s < int (length (instructions m)) \<and>
        (\<exists>d. 0 < d \<and> timers s ! h = Pending d \<and>
             duration_seconds (instructions m ! nat (current_step s)) = Some d))"

text \<open>The invariant of the display: the time label shows the elapsed time of the index that was
  displayed last, and the closing message is on screen at the end of a non-empty
  session.\<close>

definition display_inv :: "MeditationSession \<Rightarrow> MeditationPlayer \<Rightarrow> bool" where
  "display_inv m s \<longleftrightarrow>
     time_label s = format_time (current_time (instructions m)
        (if instructions m \<noteq> [] \<and> current_step s = int (length (instructions m))
         then current_step s - 1 else current_step s)) \<and>
     (instructions m \<noteq> [] \<and> current_step s = int (length (instructions m)) \<longrightarrow>
        instruction_label s = complete_message)"

text \<open>A transition makes at most one timer object, and \<^verbatim>\<open>self.timer\<close> then refers to it.\<close>

definition grows_by_arming :: "MeditationPlayer \<Rightarrow> MeditationPlayer \<Rightarrow> bool" where
  "grows_by_arming s s' \<longleftrightarrow>
     length (timers s') = length (timers s) \<or>
     (length (timers s') = Suc (length (timers s)) \<and> timer s' = Some (length (timers s)))"

text \<open>The timer objects after \<^verbatim>\<open>if self.timer: self.timer.cancel()\<close>.\<close>

definition cancelled :: "nat option \<Rightarrow> timer_state list \<Rightarrow> timer_state list" where
  "cancelled r ts = (case r of None \<Rightarrow> ts | Some h \<Rightarrow> cancel h ts)"

text \<open>
  What entering the step at the index of \<open>s'\<close> has done to the timers of \<open>s\<close>: with a
  duration that is present and strictly positive, exactly one timer object was made, it is
  pending with that duration, \<^verbatim>\<open>self.timer\<close> refers to it and no other timer is pending;
  with a duration that is null or zero no timer object was made and none is pending.
\<close>

definition arming_outcome :: "MeditationSession \<Rightarrow> MeditationPlayer \<Rightarrow> MeditationPlayer \<Rightarrow> bool" where
  "arming_outcome m s s' \<longleftrightarrow>
     (case duration_seconds (instructions m ! nat (current_step s')) of
        None \<Rightarrow> length (timers s') = length (timers s) \<and> pending_timers s' = []
      | Some d \<Rightarrow>
          if 0 < d
          then length (timers s') = Suc (length (timers s)) \<and>
               timers s' ! length (timers s) = Pending d \<and>
               timer s' = Some (length (timers s)) \<and>
               pending_timers s' = [length (timers s)]
          else length (timers s') = length (timers s) \<and> pending_timers s' = [])"

text \<open>
  The elapsed time in the words of the specification: the sum of \<open>duration_seconds\<close>, with
  null as zero, over the instructions at the indices \<open>[0, k)\<close>.
\<close>

definition elapsed_before :: "MeditationInstruction list \<Rightarrow> nat \<Rightarrow> int" where
  "elapsed_before instrs k =
     sum_list (map (\<lambda>i. case duration_seconds i of None \<Rightarrow> 0 | Some d \<Rightarrow> d) (take k instrs))"

section \<open>Example sessions and states\<close>

definition example_instruction :: "int \<Rightarrow> string \<Rightarrow> int option \<Rightarrow> MeditationInstruction" where
  "example_instruction k txt d =
     \<lparr>instruction_id = Some k, session_id = 1, step_order = k, instruction_text = txt,
      duration_seconds = d, is_pause = False\<rparr>"

definition example_session :: "MeditationInstruction list \<Rightarrow> MeditationSession" where
  "example_session is =
     \<lparr>session_pk = Some 1, title = ''Test Session'', description = ''Test description'',
      meditation_type = MINDFULNESS, difficulty_level = BEGINNER, duration_minutes = 5,
      is_active = True, instructions = is\<rparr>"

text \<open>The session of the end-to-end scenario: three instructions that last 30, 0 and 45
  seconds.\<close>

definition three_steps :: MeditationSession where
  "three_steps = example_session
     [example_instruction 1 ''one'' (Some 30), example_instruction 2 ''two'' (Some 0),
      example_instruction 3 ''three'' (Some 45)]"

definition no_steps :: MeditationSession where
  "no_steps = example_session []"

definition player_at ::
  "MeditationSession \<Rightarrow> int \<Rightarrow> bool \<Rightarrow> bool \<Rightarrow> nat option \<Rightarrow> timer_state list \<Rightarrow>
   string \<Rightarrow> string \<Rightarrow> string \<Rightarrow> button_text \<Rightarrow> MeditationPlayer" where
  "player_at m k playing paused r ts shown info clock button =
     \<lparr>session = Some m, current_step = k, is_playing = playing, is_paused = paused,
      timer = r, timers = ts, instruction_label = shown, step_info_label = info,
      time_label = clock, play_button = button\<rparr>"

text \<open>The states of the scenario: the player as created, after Play, after the first timer
  fired, after a manual Next, and after the timer of the last instruction fired.\<close>

definition three_initial :: MeditationPlayer where
  "three_initial = player_at three_steps 0 False False None []
     ''one'' ''Step 1 of 3'' ''00:00'' BtnStart"

definition three_playing :: MeditationPlayer where
  "three_playing = player_at three_steps 0 True False (Some 0) [Pending 30]
     ''one'' ''Step 1 of 3'' ''00:00'' BtnPause"

definition three_paused :: MeditationPlayer where
  "three_paused = player_at three_steps 0 False True None [Cancelled]
     ''one'' ''Step 1 of 3'' ''00:00'' BtnResume"

definition three_second :: MeditationPlayer where
  "three_second = player_at three_steps 1 True False (Some 0) [Fired]
     ''two'' ''Step 2 of 3'' ''00:30'' BtnPause"

definition three_last :: MeditationPlayer where
  "three_last = player_at three_steps 2 True False (Some 1) [Fired, Pending 45]
     ''three'' ''Step 3 of 3'' ''00:30'' BtnPause"

definition three_complete :: MeditationPlayer where
  "three_complete = player_at three_steps 3 False False None [Fired, Fired]
     complete_message ''Step 3 of 3'' ''00:30'' BtnComplete"

text \<open>From the completed state: after Previous, after Play instead, and after Previous, Play
  and the firing of the timer that Play armed.\<close>

definition three_back :: MeditationPlayer where
  "three_back = player_at three_steps 2 False False None [Fired, Fired]
     ''three'' ''Step 3 of 3'' ''00:30'' BtnComplete"

definition three_replay :: MeditationPlayer where
  "three_replay = player_at three_steps 3 True False None [Fired, Fired]
     complete_message ''Step 3 of 3'' ''00:30'' BtnPause"

definition three_again :: MeditationPlayer where
  "three_again = player_at three_steps 2 True False (Some 2) [Fired, Fired, Pending 45]
     ''three'' ''Step 3 of 3'' ''00:30'' BtnPause"

definition three_twice :: MeditationPlayer where
  "three_twice = player_at three_steps 3 False False None [Fired, Fired, Fired]
     complete_message ''Step 3 of 3'' ''00:30'' BtnComplete"

text \<open>The player of a session without instructions, as created.\<close>

definition no_steps_initial :: MeditationPlayer where
  "no_steps_initial = player_at no_steps 0 False False None []
     click_play_message ''Step 0 of 0'' ''00:00'' BtnStart"

text \<open>The store of the ordering test: one session, and its instructions in the order of
  insertion 3, 1, 2.\<close>

definition ordered_session :: MeditationSession where
  "ordered_session =
     \<lparr>session_pk = Some 1, title = ''Ordered Session'',
      description = ''Test session for instruction ordering'',
      meditation_type = BREATHING, difficulty_level = BEGINNER, duration_minutes = 5,
      is_active = True, instructions = []\<rparr>"

definition ordered_instruction :: "int \<Rightarrow> int \<Rightarrow> string \<Rightarrow> MeditationInstruction" where
  "ordered_instruction pk k txt =
     \<lparr>instruction_id = Some pk, session_id = 1, step_order = k, instruction_text = txt,
      duration_seconds = Some 30, is_pause = False\<rparr>"

definition ordered_db :: database where
  "ordered_db =
     \<lparr>session_table = [1 \<mapsto> ordered_session],
      instruction_table =
        [ordered_instruction 1 3 ''Third instruction'',
         ordered_instruction 2 1 ''First instruction'',
         ordered_instruction 3 2 ''Second instruction''],
      next_session_pk = 2, next_instruction_id = 4\<rparr>"

text \<open>The data with which the ordering test would create that session.\<close>

definition ordered_session_data :: MeditationSessionCreate where
  "ordered_session_data =
     \<lparr>new_title = ''Ordered Session'', new_description = ''Test session for instruction ordering'',
      new_meditation_type = BREATHING, new_difficulty_level = BEGINNER, new_duration_minutes = 5\<rparr>"

section \<open>Auxiliary lemmas\<close>

subsection \<open>Timer objects and the display refresh\<close>

lemma only_pending_cancel:
  "only_pending (Some h) ts \<Longrightarrow> only_pending None (cancel h ts)"
  by (auto simp: only_pending_def cancel_def nth_list_update)

lemma only_pending_None_any: "only_pending None ts \<Longrightarrow> only_pending r ts"
  by (auto simp: only_pending_def)

lemma only_pending_arm:
  "only_pending None ts \<Longrightarrow> only_pending (Some (length ts)) (ts @ [Pending d])"
  by (auto simp: only_pending_def nth_append)

lemma only_pending_fire:
  "only_pending r ts \<Longrightarrow> h < length ts \<Longrightarrow> is_pending (ts ! h) \<Longrightarrow> only_pending None (ts[h := Fired])"
  by (auto simp: only_pending_def nth_list_update)

lemma only_pending_NoneD: "only_pending None ts \<Longrightarrow> h < length ts \<Longrightarrow> \<not> is_pending (ts ! h)"
  by (auto simp: only_pending_def)

lemma update_display_eq: "0 \<le> current_step s \<Longrightarrow> update_display s = Inr (refreshed s)"
  by (simp add: update_display_def refreshed_def py_index_def Let_def)

lemma refreshed_fields [simp]:
  "session (refreshed s) = session s"
  "current_step (refreshed s) = current_step s"
  "is_playing (refreshed s) = is_playing s"
  "is_paused (refreshed s) = is_paused s"
  "timer (refreshed s) = timer s"
  "timers (refreshed s) = timers s"
  "play_button (refreshed s) = play_button s"
  "instrs_of (refreshed s) = instrs_of s"
  by (simp_all add: refreshed_def instrs_of_def)

lemma stop_timer_eq: "stop_timer s = s\<lparr>timer := None, timers := cancelled (timer s) (timers s)\<rparr>"
  by (cases s) (simp add: stop_timer_def cancelled_def split: option.splits)

lemma length_cancelled [simp]: "length (cancelled r ts) = length ts"
  by (simp add: cancelled_def cancel_def split: option.splits)

lemma only_pending_cancelled: "only_pending r ts \<Longrightarrow> only_pending None (cancelled r ts)"
  by (auto simp: cancelled_def only_pending_cancel split: option.splits)

lemma cancelled_dead: "only_pending r ts \<Longrightarrow> h < length ts \<Longrightarrow> \<not> is_pending (cancelled r ts ! h)"
  using only_pending_cancelled [of r ts] by (simp add: only_pending_def)

lemma instrs_of_upd [simp]:
  "instrs_of (s\<lparr>current_step := a\<rparr>) = instrs_of s"
  "instrs_of (s\<lparr>is_playing := b\<rparr>) = instrs_of s"
  "instrs_of (s\<lparr>is_paused := c\<rparr>) = instrs_of s"
  "instrs_of (s\<lparr>timer := d\<rparr>) = instrs_of s"
  "instrs_of (s\<lparr>timers := e\<rparr>) = instrs_of s"
  "instrs_of (s\<lparr>instruction_label := f\<rparr>) = instrs_of s"
  "instrs_of (s\<lparr>step_info_label := g\<rparr>) = instrs_of s"
  "instrs_of (s\<lparr>time_label := i\<rparr>) = instrs_of s"
  "instrs_of (s\<lparr>play_button := j\<rparr>) = instrs_of s"
  by (simp_all add: instrs_of_def)

lemma start_current_step_eq:
  assumes "instrs_of s \<noteq> []" "0 \<le> current_step s" "current_step s < int (length (instrs_of s))"
  shows "start_current_step s =
     Inr (case duration_seconds (instrs_of s ! nat (current_step s)) of
            None \<Rightarrow> refreshed s
          | Some d \<Rightarrow> if 0 < d then arm_timer d (refreshed s) else refreshed s)"
  using assms
  by (auto simp: start_current_step_def py_index_def update_display_eq split: option.splits)

subsection \<open>The control invariant is preserved by every handler\<close>

lemma inv_instrs: "player_inv m s \<Longrightarrow> instrs_of s = instructions m"
  by (simp add: player_inv_def instrs_of_def)

lemma inv_pause: "player_inv m s \<Longrightarrow> player_inv m (pause_meditation s)"
  unfolding player_inv_def pause_meditation_def stop_timer_eq
  by (auto simp: only_pending_cancelled cancelled_dead)

lemma inv_complete:
  "player_inv m s \<Longrightarrow> only_pending None (timers s) \<Longrightarrow> player_inv m (meditation_complete s)"
  unfolding player_inv_def meditation_complete_def stop_timer_eq
  by (auto simp: only_pending_cancelled cancelled_dead)

lemma inv_start_current_step:
  assumes "player_inv m s" "only_pending None (timers s)" "is_playing s"
    "current_step s < int (length (instructions m))"
  shows "\<exists>s'. start_current_step s = Inr s' \<and> player_inv m s'"
proof -
  have i: "instrs_of s = instructions m" using assms(1) by (rule inv_instrs)
  have ne: "instructions m \<noteq> []" using assms by (auto simp: player_inv_def)
  have "start_current_step s =
     Inr (case duration_seconds (instructions m ! nat (current_step s)) of
            None \<Rightarrow> refreshed s
          | Some d \<Rightarrow> if 0 < d then arm_timer d (refreshed s) else refreshed s)"
    using start_current_step_eq [of s] assms i ne by (simp add: player_inv_def)
  moreover have "player_inv m (refreshed s)"
    using assms(1) by (simp add: player_inv_def)
  moreover have "\<And>d. 0 < d \<Longrightarrow> duration_seconds (instructions m ! nat (current_step s)) = Some d
      \<Longrightarrow> player_inv m (arm_timer d (refreshed s))"
    using assms by (auto simp: player_inv_def arm_timer_def only_pending_arm nth_append dest: only_pending_NoneD)
  ultimately show ?thesis by (auto split: option.splits)
qed

lemma format_time_0: "format_time 0 = ''00:00''"
  by (simp add: format_time_def py_format_02d_def py_str_def decimal.simps digit_char_def)

lemma display_refreshed:
  "session s = Some m \<Longrightarrow> 0 \<le> current_step s \<Longrightarrow> current_step s < int (length (instructions m))
     \<Longrightarrow> display_inv m (refreshed s)"
  by (auto simp: display_inv_def refreshed_def instrs_of_def)

lemma display_arm: "display_inv m (arm_timer d s) = display_inv m s"
  by (simp add: display_inv_def arm_timer_def)

lemma display_start_current_step:
  assumes "session s = Some m" "0 \<le> current_step s" "current_step s < int (length (instructions m))"
    "start_current_step s = Inr s'"
  shows "display_inv m s'"
proof -
  have i: "instrs_of s = instructions m" using assms(1) by (simp add: instrs_of_def)
  have ne: "instructions m \<noteq> []" using assms by auto
  have "start_current_step s =
     Inr (case duration_seconds (instructions m ! nat (current_step s)) of
            None \<Rightarrow> refreshed s
          | Some d \<Rightarrow> if 0 < d then arm_timer d (refreshed s) else refreshed s)"
    using start_current_step_eq [of s] assms i ne by simp
  then show ?thesis
    using assms(4) display_refreshed [OF assms(1-3)]
    by (auto simp: display_arm split: option.splits if_splits)
qed

lemma inv_idle_no_pending: "player_inv m s \<Longrightarrow> \<not> is_playing s \<Longrightarrow> only_pending None (timers s)"
  by (auto simp: player_inv_def only_pending_def)

lemma inv_quiet:
  assumes "session s = Some m" "0 \<le> current_step s" "current_step s \<le> int (length (instructions m))"
    "is_playing s \<longrightarrow> \<not> is_paused s \<and> instructions m \<noteq> []" "only_pending None (timers s)"
  shows "player_inv m s"
  using assms by (auto simp: player_inv_def only_pending_None_any dest: only_pending_NoneD)

lemma inv_start_meditation:
  assumes "player_inv m s" "\<not> is_playing s"
  shows "\<exists>s'. start_meditation s = Inr s' \<and> player_inv m s'"
proof (cases "instructions m = []")
  case True
  then show ?thesis using assms by (simp add: start_meditation_def inv_instrs)
next
  case False
  define s1 where "s1 = s\<lparr>is_playing := True, is_paused := False, play_button := BtnPause\<rparr>"
  have q: "only_pending None (timers s1)"
    using inv_idle_no_pending [OF assms] by (simp add: s1_def)
  have inv1: "player_inv m s1"
    using assms(1) False q by (intro inv_quiet) (simp_all add: s1_def player_inv_def)
  have eq: "start_meditation s =
      (if current_step s1 < int (length (instructions m)) then start_current_step s1 else Inr s1)"
    using False assms(1) by (simp add: start_meditation_def inv_instrs s1_def Let_def)
  show ?thesis
  proof (cases "current_step s1 < int (length (instructions m))")
    case True
    then show ?thesis
      using inv_start_current_step [OF inv1 q] eq by (simp add: s1_def)
  next
    case False
    then show ?thesis using eq inv1 by simp
  qed
qed

lemma inv_toggle: "player_inv m s \<Longrightarrow> \<exists>s'. toggle_play s = Inr s' \<and> player_inv m s'"
  using inv_start_meditation [of m s] inv_pause [of m s]
  by (auto simp: toggle_play_def)

lemma inv_restart: "player_inv m s \<Longrightarrow> \<exists>s'. restart s = Inr s' \<and> player_inv m s'"
proof -
  assume a: "player_inv m s"
  define s0 where "s0 = refreshed ((stop_timer s)\<lparr>current_step := 0, is_playing := False,
      is_paused := False, play_button := BtnStart\<rparr>)"
  have q: "only_pending None (timers s0)"
    using a by (simp add: s0_def stop_timer_eq player_inv_def only_pending_cancelled)
  have "player_inv m s0"
    using a q by (intro inv_quiet) (simp_all add: s0_def stop_timer_eq player_inv_def)
  moreover have "restart s = Inr s0"
    by (simp add: restart_def update_display_eq s0_def)
  ultimately show ?thesis by simp
qed

lemma inv_moved:
  assumes "player_inv m s" "0 \<le> k" "k < int (length (instructions m))"
  shows "\<exists>s'. (case update_display ((stop_timer s)\<lparr>current_step := k\<rparr>) of
              Inl e \<Rightarrow> Inl e
            | Inr s1 \<Rightarrow> if is_playing s1 then start_current_step s1 else Inr s1) = Inr s'
          \<and> player_inv m s'"
proof -
  define s0 where "s0 = refreshed ((stop_timer s)\<lparr>current_step := k\<rparr>)"
  have q: "only_pending None (timers s0)"
    using assms(1) by (simp add: s0_def stop_timer_eq player_inv_def only_pending_cancelled)
  have inv0: "player_inv m s0"
    using assms q by (intro inv_quiet) (simp_all add: s0_def stop_timer_eq player_inv_def)
  have u: "update_display ((stop_timer s)\<lparr>current_step := k\<rparr>) = Inr s0"
    using assms(2) by (simp add: update_display_eq s0_def)
  show ?thesis
  proof (cases "is_playing s0")
    case True
    then show ?thesis
      using inv_start_current_step [OF inv0 q True] assms(3) u by (simp add: s0_def)
  next
    case False
    then show ?thesis using u inv0 by simp
  qed
qed

lemma inv_previous: "player_inv m s \<Longrightarrow> \<exists>s'. previous_step s = Inr s' \<and> player_inv m s'"
  using inv_moved [of m s "current_step s - 1"]
  by (auto simp: previous_step_def player_inv_def)

lemma inv_next: "player_inv m s \<Longrightarrow> \<exists>s'. next_step s = Inr s' \<and> player_inv m s'"
  using inv_moved [of m s "current_step s + 1"]
  by (auto simp: next_step_def inv_instrs) (auto simp: player_inv_def)

lemma inv_fire:
  assumes "player_inv m s" "h < length (timers s)" "is_pending (timers s ! h)"
  shows "\<exists>s'. advance_to_next_step (s\<lparr>timers := (timers s)[h := Fired]\<rparr>) = Inr s' \<and> player_inv m s'"
proof -
  define s1 where "s1 = s\<lparr>timers := (timers s)[h := Fired], current_step := current_step s + 1\<rparr>"
  have pl: "is_playing s" and lt: "current_step s < int (length (instructions m))"
    using assms by (auto simp: player_inv_def)
  have q: "only_pending None (timers s1)"
    using assms by (auto simp: s1_def player_inv_def intro: only_pending_fire)
  have inv1: "player_inv m s1"
    using assms(1) q lt by (intro inv_quiet) (simp_all add: s1_def player_inv_def)
  have eq: "advance_to_next_step (s\<lparr>timers := (timers s)[h := Fired]\<rparr>) =
      (if current_step s1 \<ge> int (length (instructions m)) then Inr (meditation_complete s1)
       else start_current_step s1)"
    using pl inv_instrs [OF assms(1)] assms(1)
    by (simp add: advance_to_next_step_def Let_def s1_def player_inv_def)
  show ?thesis
  proof (cases "current_step s1 \<ge> int (length (instructions m))")
    case True
    then show ?thesis using eq inv_complete [OF inv1 q] by simp
  next
    case False
    then show ?thesis
      using eq inv_start_current_step [OF inv1 q] pl by (simp add: s1_def)
  qed
qed

lemma inv_step: "player_inv m s \<Longrightarrow> \<exists>s'. step e s = Inr s' \<and> player_inv m s'"
  by (cases e) (auto simp: inv_toggle inv_previous inv_next inv_restart inv_fire)

lemma inv_create: "create (new_player (Some m)) = Inr s \<Longrightarrow> player_inv m s"
  by (auto simp: create_def new_player_def update_display_eq refreshed_def player_inv_def only_pending_def)

lemma reachable_inv: "reachable m s \<Longrightarrow> player_inv m s"
proof (induction rule: reachable.induct)
  case (reachable_create s)
  then show ?case by (rule inv_create)
next
  case (reachable_step s e s1)
  then show ?case using inv_step [of m s e] by auto
qed

subsection \<open>The display invariant is preserved by every handler\<close>

lemma display_create: "create (new_player (Some m)) = Inr s \<Longrightarrow> display_inv m s"
  by (auto simp: create_def new_player_def update_display_eq refreshed_def display_inv_def
      instrs_of_def current_time_def py_slice_to_def format_time_0)

lemma display_flags [simp]:
  "display_inv m (s\<lparr>is_playing := a\<rparr>) = display_inv m s"
  "display_inv m (s\<lparr>is_paused := b\<rparr>) = display_inv m s"
  "display_inv m (s\<lparr>play_button := c\<rparr>) = display_inv m s"
  "display_inv m (s\<lparr>timer := d\<rparr>) = display_inv m s"
  "display_inv m (s\<lparr>timers := e\<rparr>) = display_inv m s"
  by (simp_all add: display_inv_def)

lemma display_toggle:
  assumes "player_inv m s" "display_inv m s" "toggle_play s = Inr s'"
  shows "display_inv m s'"
proof -
  define s1 where "s1 = s\<lparr>is_playing := True, is_paused := False, play_button := BtnPause\<rparr>"
  have i: "instrs_of s = instructions m" using assms(1) by (rule inv_instrs)
  have b: "session s1 = Some m" "0 \<le> current_step s1" "current_step s1 = current_step s"
    using assms(1) by (simp_all add: player_inv_def s1_def)
  have d1: "display_inv m s1" using assms(2) by (simp add: s1_def)
  consider (empty) "instructions m = []"
    | (pause) "instructions m \<noteq> []" "is_playing s"
    | (start) "instructions m \<noteq> []" "\<not> is_playing s" "current_step s < int (length (instructions m))"
    | (stay) "instructions m \<noteq> []" "\<not> is_playing s" "\<not> current_step s < int (length (instructions m))"
    by blast
  then show ?thesis
  proof cases
    case empty
    then have "s' = s" using assms(3) i by (simp add: toggle_play_def)
    then show ?thesis using assms(2) by simp
  next
    case pause
    then have "s' = pause_meditation s" using assms(3) i by (simp add: toggle_play_def)
    then show ?thesis using assms(2) by (simp add: pause_meditation_def stop_timer_eq)
  next
    case start
    then have "start_current_step s1 = Inr s'"
      using assms(3) i by (simp add: toggle_play_def start_meditation_def s1_def Let_def)
    then show ?thesis
      using display_start_current_step [of s1 m s'] b start by simp
  next
    case stay
    then have "s' = s1"
      using assms(3) i by (simp add: toggle_play_def start_meditation_def s1_def Let_def)
    then show ?thesis using d1 by simp
  qed
qed

lemma display_moved:
  assumes "player_inv m s" "0 \<le> k" "k < int (length (instructions m))"
    "(case update_display ((stop_timer s)\<lparr>current_step := k\<rparr>) of
              Inl e \<Rightarrow> Inl e
            | Inr s1 \<Rightarrow> if is_playing s1 then start_current_step s1 else Inr s1) = Inr s'"
  shows "display_inv m s'"
proof -
  define s0 where "s0 = refreshed ((stop_timer s)\<lparr>current_step := k\<rparr>)"
  have b: "session s = Some m" using assms(1) by (simp add: player_inv_def)
  have u: "update_display ((stop_timer s)\<lparr>current_step := k\<rparr>) = Inr s0"
    using assms(2) by (simp add: update_display_eq s0_def)
  have d0: "display_inv m s0"
    unfolding s0_def using b assms(2,3) by (intro display_refreshed) (simp_all add: stop_timer_eq)
  have f: "session s0 = Some m" "current_step s0 = k"
    using b by (simp_all add: s0_def stop_timer_eq)
  show ?thesis
    using assms(4) u d0 display_start_current_step [of s0 m s'] f assms(2,3)
    by (auto split: if_splits)
qed

lemma display_previous:
  "player_inv m s \<Longrightarrow> display_inv m s \<Longrightarrow> previous_step s = Inr s' \<Longrightarrow> display_inv m s'"
  using display_moved [of m s "current_step s - 1" s']
  by (auto simp: previous_step_def player_inv_def split: if_splits)

lemma display_next:
  "player_inv m s \<Longrightarrow> display_inv m s \<Longrightarrow> next_step s = Inr s' \<Longrightarrow> display_inv m s'"
  using display_moved [of m s "current_step s + 1" s'] inv_instrs [of m s]
  by (auto simp: next_step_def player_inv_def split: if_splits)

lemma display_restart:
  assumes "player_inv m s" "display_inv m s" "restart s = Inr s'"
  shows "display_inv m s'"
proof -
  define s0 where "s0 = (stop_timer s)\<lparr>current_step := 0, is_playing := False,
      is_paused := False, play_button := BtnStart\<rparr>"
  have b: "session s0 = Some m" "current_step s0 = 0"
    using assms(1) by (simp_all add: s0_def stop_timer_eq player_inv_def)
  have r: "s' = refreshed s0"
    using assms(3) by (simp add: restart_def update_display_eq s0_def)
  show ?thesis
  proof (cases "instructions m = []")
    case True
    have "current_step s = 0" using assms(1) True by (simp add: player_inv_def)
    then show ?thesis
      using True assms(2) b r
      by (simp add: display_inv_def refreshed_def instrs_of_def s0_def stop_timer_eq)
  next
    case False
    then show ?thesis
      using display_refreshed [of s0 m] b r by simp
  qed
qed

lemma display_fire:
  assumes "player_inv m s" "display_inv m s" "h < length (timers s)" "is_pending (timers s ! h)"
    "advance_to_next_step (s\<lparr>timers := (timers s)[h := Fired]\<rparr>) = Inr s'"
  shows "display_inv m s'"
proof -
  define s1 where "s1 = s\<lparr>timers := (timers s)[h := Fired], current_step := current_step s + 1\<rparr>"
  have pl: "is_playing s" and lt: "current_step s < int (length (instructions m))"
    and b: "session s = Some m" "0 \<le> current_step s"
    using assms by (auto simp: player_inv_def)
  have eq: "advance_to_next_step (s\<lparr>timers := (timers s)[h := Fired]\<rparr>) =
      (if current_step s1 \<ge> int (length (instructions m)) then Inr (meditation_complete s1)
       else start_current_step s1)"
    using pl inv_instrs [OF assms(1)] b
    by (simp add: advance_to_next_step_def Let_def s1_def)
  show ?thesis
  proof (cases "current_step s1 \<ge> int (length (instructions m))")
    case True
    then have "current_step s + 1 = int (length (instructions m))" using lt by (simp add: s1_def)
    then have c: "current_step s = int (length (instructions m)) - 1" by simp
    have ne: "instructions m \<noteq> []" using lt b by auto
    have "s' = meditation_complete s1" using eq True assms(5) by simp
    then show ?thesis
      using assms(2) c ne
      by (simp add: meditation_complete_def stop_timer_eq display_inv_def s1_def)
  next
    case False
    then show ?thesis
      using eq assms(5) display_start_current_step [of s1 m s'] b
      by (simp add: s1_def)
  qed
qed

lemma display_step:
  assumes "player_inv m s" "display_inv m s" "step e s = Inr s'"
  shows "display_inv m s'"
proof (cases e)
  case TogglePlay
  then show ?thesis using assms display_toggle by simp
next
  case PreviousStep
  then show ?thesis using assms display_previous by simp
next
  case NextStep
  then show ?thesis using assms display_next by simp
next
  case Restart
  then show ?thesis using assms display_restart by simp
next
  case (TimerFire h)
  show ?thesis
  proof (cases "h < length (timers s) \<and> is_pending (timers s ! h)")
    case True
    then show ?thesis using assms TimerFire display_fire [of m s h s'] by simp
  next
    case False
    then show ?thesis using assms TimerFire by auto
  qed
qed

lemma reachable_display: "reachable m s \<Longrightarrow> display_inv m s"
proof (induction rule: reachable.induct)
  case (reachable_create s)
  then show ?case by (rule display_create)
next
  case (reachable_step s e s1)
  then show ?case using display_step [of m s e s1] reachable_inv by blast
qed


subsection \<open>What a transition does to the timer objects and the index\<close>

lemma pending_timers_empty: "only_pending None (timers s) \<Longrightarrow> pending_timers s = []"
  by (auto simp: pending_timers_def filter_empty_conv dest: only_pending_NoneD)

lemma pending_timers_at_most_one:
  assumes "only_pending r (timers s)"
  shows "length (pending_timers s) \<le> 1"
proof -
  have d: "distinct (pending_timers s)" by (simp add: pending_timers_def)
  have "set (pending_timers s) \<subseteq> {h. r = Some h}"
    using assms by (auto simp: pending_timers_def only_pending_def)
  also have "\<dots> \<subseteq> {the r}" by auto
  finally have "card (set (pending_timers s)) \<le> card {the r}"
    by (intro card_mono) simp_all
  then show ?thesis using d by (simp add: distinct_card)
qed

lemma update_display_shape:
  assumes "update_display s = Inr s'"
  shows "\<exists>a b c. s' = s\<lparr>instruction_label := a, step_info_label := b, time_label := c\<rparr>"
proof (cases "instrs_of s = []")
  case True
  then have "s' = s" using assms by (simp add: update_display_def)
  then have "s' = s\<lparr>instruction_label := instruction_label s,
      step_info_label := step_info_label s, time_label := time_label s\<rparr>" by simp
  then show ?thesis by blast
next
  case False
  show ?thesis
  proof (cases "current_step s < int (length (instrs_of s))")
    case True
    then obtain i where "py_index (instrs_of s) (current_step s) = Inr i"
      using assms \<open>instrs_of s \<noteq> []\<close>
      by (cases "py_index (instrs_of s) (current_step s)") (simp_all add: update_display_def Let_def)
    then have "s' = s\<lparr>step_info_label := ''Step '' @ py_str (current_step s + 1) @ '' of '' @
          py_str (int (length (instrs_of s))),
        instruction_label := instruction_text i,
        time_label := format_time (current_time (instrs_of s) (current_step s))\<rparr>"
      using assms True \<open>instrs_of s \<noteq> []\<close> by (simp add: update_display_def Let_def)
    then have "s' = s\<lparr>instruction_label := instruction_text i,
        step_info_label := ''Step '' @ py_str (current_step s + 1) @ '' of '' @
          py_str (int (length (instrs_of s))),
        time_label := format_time (current_time (instrs_of s) (current_step s))\<rparr>" by simp
    then show ?thesis by blast
  next
    case False
    then have "s' = s\<lparr>step_info_label := ''Step '' @ py_str (current_step s + 1) @ '' of '' @
          py_str (int (length (instrs_of s))),
        time_label := format_time (current_time (instrs_of s) (current_step s))\<rparr>"
      using assms \<open>instrs_of s \<noteq> []\<close> by (simp add: update_display_def Let_def)
    then have "s' = s\<lparr>instruction_label := instruction_label s,
        step_info_label := ''Step '' @ py_str (current_step s + 1) @ '' of '' @
          py_str (int (length (instrs_of s))),
        time_label := format_time (current_time (instrs_of s) (current_step s))\<rparr>" by simp
    then show ?thesis by blast
  qed
qed

lemma update_display_frame:
  assumes "update_display s = Inr s'"
  shows "session s' = session s" "current_step s' = current_step s" "is_playing s' = is_playing s"
    "is_paused s' = is_paused s" "timer s' = timer s" "timers s' = timers s"
    "play_button s' = play_button s"
proof -
  obtain a b c where "s' = s\<lparr>instruction_label := a, step_info_label := b, time_label := c\<rparr>"
    using update_display_shape [OF assms] by blast
  then show "session s' = session s" "current_step s' = current_step s" "is_playing s' = is_playing s"
    "is_paused s' = is_paused s" "timer s' = timer s" "timers s' = timers s"
    "play_button s' = play_button s" by simp_all
qed

lemma start_current_step_frame:
  assumes "start_current_step s = Inr s'"
  shows "session s' = session s" "current_step s' = current_step s" "is_paused s' = is_paused s"
    "grows_by_arming s s'"
proof -
  consider (a) "s' = s" | (b) "s' = meditation_complete s"
    | (c) s1 where "update_display s = Inr s1" "s' = s1"
    | (d) s1 d where "update_display s = Inr s1" "s' = arm_timer d s1"
    using assms by (auto simp: start_current_step_def split: if_splits sum.splits option.splits)
  then have "session s' = session s \<and> current_step s' = current_step s \<and>
      is_paused s' = is_paused s \<and> grows_by_arming s s'"
  proof cases
    case a
    then show ?thesis by (simp add: grows_by_arming_def)
  next
    case b
    then show ?thesis by (simp add: grows_by_arming_def meditation_complete_def stop_timer_eq)
  next
    case c
    then show ?thesis using update_display_frame [of s s1] by (simp add: grows_by_arming_def)
  next
    case d
    then show ?thesis
      using update_display_frame [of s s1] by (simp add: grows_by_arming_def arm_timer_def)
  qed
  then show "session s' = session s" "current_step s' = current_step s" "is_paused s' = is_paused s"
    "grows_by_arming s s'" by simp_all
qed

lemma grows_same_length:
  "length (timers s0) = length (timers s) \<Longrightarrow> grows_by_arming s0 s' \<Longrightarrow> grows_by_arming s s'"
  by (simp add: grows_by_arming_def)

lemma moved_frame:
  assumes "(case update_display ((stop_timer s)\<lparr>current_step := k\<rparr>) of
              Inl e \<Rightarrow> Inl e
            | Inr s1 \<Rightarrow> if is_playing s1 then start_current_step s1 else Inr s1) = Inr s'"
  shows "current_step s' = k" "grows_by_arming s s'"
proof -
  obtain s1 where u: "update_display ((stop_timer s)\<lparr>current_step := k\<rparr>) = Inr s1"
    and r: "(if is_playing s1 then start_current_step s1 else Inr s1) = Inr s'"
    using assms by (auto split: sum.splits)
  have f: "current_step s1 = k" "length (timers s1) = length (timers s)"
    using update_display_frame [OF u] by (simp_all add: stop_timer_eq)
  have "current_step s' = k \<and> grows_by_arming s1 s'"
    using r f start_current_step_frame [of s1 s']
    by (auto simp: grows_by_arming_def split: if_splits)
  then show "current_step s' = k" "grows_by_arming s s'"
    using f(2) by (simp_all add: grows_by_arming_def)
qed

lemma step_grows:
  assumes "step e s = Inr s'"
  shows "grows_by_arming s s'"
proof (cases e)
  case TogglePlay
  define s1 where "s1 = s\<lparr>is_playing := True, is_paused := False, play_button := BtnPause\<rparr>"
  have "s' = s \<or> s' = pause_meditation s \<or> s' = s1 \<or> start_current_step s1 = Inr s'"
    using assms TogglePlay
    by (auto simp: toggle_play_def start_meditation_def Let_def s1_def split: if_splits)
  then show ?thesis
    using start_current_step_frame(4) [of s1 s']
    by (auto simp: grows_by_arming_def pause_meditation_def stop_timer_eq s1_def)
next
  case PreviousStep
  then show ?thesis
    using assms moved_frame(2) [where s=s and k="current_step s - 1" and s'=s']
    by (auto simp: previous_step_def grows_by_arming_def split: if_splits)
next
  case NextStep
  then show ?thesis
    using assms moved_frame(2) [where s=s and k="current_step s + 1" and s'=s']
    by (auto simp: next_step_def grows_by_arming_def split: if_splits)
next
  case Restart
  then show ?thesis
    using assms update_display_frame(6) [of _ s']
    by (auto simp: restart_def grows_by_arming_def stop_timer_eq)
next
  case (TimerFire h)
  define s0 where "s0 = s\<lparr>timers := (timers s)[h := Fired]\<rparr>"
  define s1 where "s1 = s0\<lparr>current_step := current_step s0 + 1\<rparr>"
  have "s' = s \<or> s' = s0 \<or> s' = meditation_complete s1 \<or> start_current_step s1 = Inr s'"
    using assms TimerFire
    by (auto simp: advance_to_next_step_def Let_def s0_def s1_def split: if_splits)
  then show ?thesis
    using start_current_step_frame(4) [of s1 s']
    by (auto simp: grows_by_arming_def meditation_complete_def stop_timer_eq s0_def s1_def)
qed

subsection \<open>States at the end of the sequence\<close>

lemma at_end_quiet:
  "player_inv m s \<Longrightarrow> current_step s = int (length (instructions m)) \<Longrightarrow> only_pending None (timers s)"
  by (auto simp: player_inv_def only_pending_def)

lemma cancelled_quiet: "only_pending None ts \<Longrightarrow> cancelled r ts = ts"
  by (auto simp: cancelled_def cancel_def only_pending_def split: option.splits)

lemma at_end_next:
  "player_inv m s \<Longrightarrow> current_step s = int (length (instructions m)) \<Longrightarrow> next_step s = Inr s"
  by (simp add: next_step_def inv_instrs)

lemma quiet_fire: "only_pending None (timers s) \<Longrightarrow> step (TimerFire h) s = Inr s"
  by (auto dest: only_pending_NoneD)

lemma at_end_toggle:
  assumes "player_inv m s" "instructions m \<noteq> []" "current_step s = int (length (instructions m))"
  shows "toggle_play s =
     Inr (if is_playing s
          then s\<lparr>is_playing := False, is_paused := True, play_button := BtnResume, timer := None\<rparr>
          else s\<lparr>is_playing := True, is_paused := False, play_button := BtnPause\<rparr>)"
  using assms inv_instrs [OF assms(1)] cancelled_quiet [OF at_end_quiet [OF assms(1,3)]]
  by (simp add: toggle_play_def start_meditation_def pause_meditation_def stop_timer_eq Let_def)

lemma at_end_step:
  assumes "player_inv m s" "instructions m \<noteq> []" "current_step s = int (length (instructions m))"
    "e \<noteq> PreviousStep" "e \<noteq> Restart"
  shows "\<exists>s'. step e s = Inr s' \<and> player_inv m s' \<and>
     current_step s' = int (length (instructions m)) \<and> timers s' = timers s"
proof (cases e)
  case TogglePlay
  obtain s' where s': "toggle_play s = Inr s'" "player_inv m s'"
    using inv_toggle [OF assms(1)] by blast
  then show ?thesis
    using TogglePlay at_end_toggle [OF assms(1-3)] assms(3) by (auto split: if_splits)
next
  case NextStep
  then show ?thesis using at_end_next [OF assms(1,3)] assms by simp
next
  case (TimerFire h)
  then show ?thesis using quiet_fire [OF at_end_quiet [OF assms(1,3)]] assms by simp
qed (use assms in simp_all)

lemma at_end_run:
  assumes "player_inv m s" "instructions m \<noteq> []" "current_step s = int (length (instructions m))"
    "PreviousStep \<notin> set es" "Restart \<notin> set es"
  shows "\<exists>s'. run es s = Inr s' \<and> player_inv m s' \<and>
     current_step s' = int (length (instructions m)) \<and> timers s' = timers s"
  using assms
proof (induction es arbitrary: s)
  case Nil
  then show ?case by simp
next
  case (Cons e es)
  obtain s1 where s1: "step e s = Inr s1" "player_inv m s1"
    "current_step s1 = int (length (instructions m))" "timers s1 = timers s"
    using at_end_step [of m s e] Cons.prems by auto
  obtain s' where "run es s1 = Inr s'" "player_inv m s'"
    "current_step s' = int (length (instructions m))" "timers s' = timers s1"
    using Cons.IH [of s1] s1 Cons.prems by auto
  then show ?case using s1 by simp
qed

lemma reachable_run: "reachable m s \<Longrightarrow> run es s = Inr s' \<Longrightarrow> reachable m s'"
proof (induction es arbitrary: s)
  case Nil
  then show ?case by simp
next
  case (Cons e es)
  then show ?case by (auto split: sum.splits intro: reachable_step)
qed

section \<open>The example states are the states of the scenario\<close>

lemmas player_simps =
  create_def new_player_def update_display_def instrs_of_def py_index_def current_time_def
  py_slice_to_def format_time_def py_format_02d_def py_str_def decimal.simps digit_char_def
  or_zero_def toggle_play_def start_meditation_def start_current_step_def arm_timer_def
  advance_to_next_step_def meditation_complete_def stop_timer_def cancel_def
  pause_meditation_def restart_def previous_step_def next_step_def Let_def

lemmas example_simps =
  example_instruction_def example_session_def three_steps_def no_steps_def player_at_def
  three_initial_def three_playing_def three_paused_def three_second_def three_last_def three_complete_def
  three_back_def three_replay_def three_again_def three_twice_def no_steps_initial_def

lemmas db_simps =
  ordered_db_def ordered_session_def ordered_instruction_def ordered_session_data_def
  select_instructions_def

lemma three_create: "create (new_player (Some three_steps)) = Inr three_initial"
  by (simp add: player_simps example_simps)

lemma three_play: "step TogglePlay three_initial = Inr three_playing"
  by (simp add: player_simps example_simps)

lemma three_fire_0: "step (TimerFire 0) three_playing = Inr three_second"
  by (simp add: player_simps example_simps)

lemma three_next: "step NextStep three_second = Inr three_last"
  by (simp add: player_simps example_simps)

lemma three_fire_1: "step (TimerFire 1) three_last = Inr three_complete"
  by (simp add: player_simps example_simps)

lemma three_previous: "step PreviousStep three_complete = Inr three_back"
  by (simp add: player_simps example_simps)

lemma three_play_at_end: "step TogglePlay three_complete = Inr three_replay"
  by (simp add: player_simps example_simps)

lemma three_play_again: "step TogglePlay three_back = Inr three_again"
  by (simp add: player_simps example_simps)

lemma three_fire_2: "step (TimerFire 2) three_again = Inr three_twice"
  by (simp add: player_simps example_simps)

lemma no_steps_create: "create (new_player (Some no_steps)) = Inr no_steps_initial"
  by (simp add: player_simps example_simps)

lemma reachable_three_initial: "reachable three_steps three_initial"
  by (rule reachable_create) (rule three_create)

lemma reachable_three_playing: "reachable three_steps three_playing"
  by (rule reachable_step [OF reachable_three_initial three_play])

lemma reachable_three_second: "reachable three_steps three_second"
  by (rule reachable_step [OF reachable_three_playing three_fire_0])

lemma reachable_three_last: "reachable three_steps three_last"
  by (rule reachable_step [OF reachable_three_second three_next])

lemma reachable_three_complete: "reachable three_steps three_complete"
  by (rule reachable_step [OF reachable_three_last three_fire_1])

lemma reachable_no_steps_initial: "reachable no_steps no_steps_initial"
  by (rule reachable_create) (rule no_steps_create)

section \<open>Timers\<close>

lemma quiet_run_fires:
  "only_pending None (timers s) \<Longrightarrow> run (map TimerFire hs) s = Inr s"
proof (induction hs)
  case Nil
  then show ?case by simp
next
  case (Cons h hs)
  have "step (TimerFire h) s = Inr s" using Cons.prems by (rule quiet_fire)
  then show ?case using Cons by (simp del: step.simps)
qed

lemma pause_quiet:
  "player_inv m s \<Longrightarrow> only_pending None (timers (pause_meditation s))"
  by (simp add: pause_meditation_def stop_timer_eq player_inv_def only_pending_cancelled)

text \<open>
  C1. In every reachable state that is playing, the play button pauses: the mode becomes
  Paused, the index is unchanged and no timer is pending any more. From then on no timer
  can fire, so that any number of timer events leaves the state as it is; and the callback
  \<^verbatim>\<open>_advance_to_next_step\<close> itself, were it to run, returns at once and changes nothing.
  Auto-advance never fires after Pause.
\<close>

theorem pause_stops_auto_advance:
  assumes "reachable m s" "is_playing s"
  shows "step TogglePlay s = Inr (pause_meditation s) \<and>
     mode_of (pause_meditation s) = Paused \<and>
     current_step (pause_meditation s) = current_step s \<and>
     pending_timers (pause_meditation s) = [] \<and>
     (\<forall>hs. run (map TimerFire hs) (pause_meditation s) = Inr (pause_meditation s)) \<and>
     advance_to_next_step (pause_meditation s) = Inr (pause_meditation s)"
proof -
  have inv: "player_inv m s" using assms(1) by (rule reachable_inv)
  have ne: "instrs_of s \<noteq> []"
    using inv assms(2) inv_instrs [OF inv] by (simp add: player_inv_def)
  have q: "only_pending None (timers (pause_meditation s))" using inv by (rule pause_quiet)
  have 1: "step TogglePlay s = Inr (pause_meditation s)"
    using ne assms(2) by (simp add: toggle_play_def)
  have 2: "mode_of (pause_meditation s) = Paused"
    by (simp add: mode_of_def pause_meditation_def stop_timer_eq)
  have 3: "current_step (pause_meditation s) = current_step s"
    by (simp add: pause_meditation_def stop_timer_eq)
  have 4: "pending_timers (pause_meditation s) = []" using q by (rule pending_timers_empty)
  have 5: "\<forall>hs. run (map TimerFire hs) (pause_meditation s) = Inr (pause_meditation s)"
    using q by (simp add: quiet_run_fires)
  have 6: "advance_to_next_step (pause_meditation s) = Inr (pause_meditation s)"
    by (simp add: advance_to_next_step_def pause_meditation_def stop_timer_eq)
  show ?thesis using 1 2 3 4 5 6 by blast
qed

text \<open>Pause in the first playing state of the scenario, whose timer of 30 seconds is
  cancelled.\<close>

lemma three_pause: "pause_meditation three_playing = three_paused"
  by (simp add: player_simps example_simps)

theorem pause_stops_auto_advance_witness:
  "reachable three_steps three_playing \<and> is_playing three_playing \<and>
   step TogglePlay three_playing = Inr three_paused \<and>
   mode_of three_paused = Paused \<and>
   current_step three_paused = current_step three_playing \<and>
   pending_timers three_paused = [] \<and>
   run [TimerFire 0, TimerFire 0] three_paused = Inr three_paused \<and>
   advance_to_next_step three_paused = Inr three_paused"
proof -
  have p: "is_playing three_playing" by (simp add: example_simps)
  have "run (map TimerFire [0, 0]) three_paused = Inr three_paused"
    using pause_stops_auto_advance [OF reachable_three_playing p]
    unfolding three_pause by blast
  then have r: "run [TimerFire 0, TimerFire 0] three_paused = Inr three_paused" by simp
  show ?thesis
    using pause_stops_auto_advance [OF reachable_three_playing p] reachable_three_playing p r
    unfolding three_pause by blast
qed

text \<open>
  C2. In every state reachable by Play, Pause, Next, Previous, Restart and timer events at
  most one timer is pending. A transition makes at most one timer object, and when it
  makes one every timer object that existed before is no longer pending: the new timer is
  armed only after the old one fired or was cancelled.
\<close>

theorem single_pending_timer:
  assumes "reachable m s"
  shows "length (pending_timers s) \<le> 1 \<and>
     (\<forall>e s'. step e s = Inr s' \<and> length (timers s) < length (timers s') \<longrightarrow>
        length (timers s') = Suc (length (timers s)) \<and>
        (\<forall>h<length (timers s). \<not> is_pending (timers s' ! h)))"
proof -
  have inv: "player_inv m s" using assms by (rule reachable_inv)
  have 1: "length (pending_timers s) \<le> 1"
    using inv pending_timers_at_most_one [of "timer s" s] by (simp add: player_inv_def)
  have 2: "length (timers s') = Suc (length (timers s)) \<and>
        (\<forall>h<length (timers s). \<not> is_pending (timers s' ! h))"
    if h: "step e s = Inr s'" "length (timers s) < length (timers s')" for e s'
  proof -
    have g: "length (timers s') = Suc (length (timers s))" "timer s' = Some (length (timers s))"
      using step_grows [OF h(1)] h(2) by (simp_all add: grows_by_arming_def)
    have "reachable m s'" using assms h(1) by (rule reachable_step)
    then have op: "only_pending (timer s') (timers s')"
      using reachable_inv [of m s'] by (simp add: player_inv_def)
    have "\<not> is_pending (timers s' ! h)" if "h < length (timers s)" for h
    proof
      assume "is_pending (timers s' ! h)"
      then have "timer s' = Some h" using op g(1) that by (simp add: only_pending_def)
      then show False using g(2) that by simp
    qed
    then show ?thesis using g(1) by simp
  qed
  show ?thesis using 1 2 by blast
qed

text \<open>Next while playing the second instruction of the scenario arms the timer of the
  third; the timer of the first has fired.\<close>

theorem single_pending_timer_witness:
  "reachable three_steps three_second \<and> length (pending_timers three_second) \<le> 1 \<and>
   step NextStep three_second = Inr three_last \<and>
   length (timers three_second) < length (timers three_last) \<and>
   length (timers three_last) = Suc (length (timers three_second)) \<and>
   \<not> is_pending (timers three_last ! 0) \<and>
   pending_timers three_last = [1]"
proof -
  have l: "length (timers three_second) < length (timers three_last)"
    by (simp add: example_simps)
  have z: "0 < length (timers three_second)" by (simp add: example_simps)
  have p: "pending_timers three_last = [1]"
    by (simp add: pending_timers_def example_simps upt_rec)
  show ?thesis
    using single_pending_timer [OF reachable_three_second] three_next l z p
      reachable_three_second
    by blast
qed

section \<open>Elapsed time\<close>

lemma current_time_elapsed_before:
  "0 \<le> k \<Longrightarrow> current_time instrs k = elapsed_before instrs (nat k)"
  by (simp add: current_time_def elapsed_before_def py_slice_to_def or_zero_def)

text \<open>
  C5, as amended. The elapsed time that \<^verbatim>\<open>_update_display\<close> writes is the sum of
  \<open>duration_seconds\<close>, null as zero, over the instructions at the indices \<open>[0, k)\<close> for
  the index \<open>k\<close> at the time of the call, a function of \<open>k\<close> and the list alone. The time
  label of a reachable state shows that sum for its own index as long as the index is a
  valid one (or the session has no instructions). Completing does not refresh the display:
  in a state whose index is the length of a non-empty list the label still shows the sum
  over \<open>[0, length - 1)\<close>.
\<close>

theorem elapsed_time_display:
  assumes "reachable m s"
  shows "(instructions m = [] \<or> current_step s < int (length (instructions m)) \<longrightarrow>
        time_label s = format_time (elapsed_before (instructions m) (nat (current_step s)))) \<and>
     (instructions m \<noteq> [] \<and> current_step s = int (length (instructions m)) \<longrightarrow>
        time_label s = format_time (elapsed_before (instructions m) (nat (current_step s) - 1))) \<and>
     (instructions m \<noteq> [] \<longrightarrow>
        (\<exists>s'. update_display s = Inr s' \<and>
           time_label s' = format_time (elapsed_before (instructions m) (nat (current_step s)))))"
proof -
  have inv: "player_inv m s" using assms by (rule reachable_inv)
  have d: "display_inv m s" using assms by (rule reachable_display)
  have b: "0 \<le> current_step s" "current_step s \<le> int (length (instructions m))"
    using inv by (simp_all add: player_inv_def)
  have i: "instrs_of s = instructions m" using inv by (rule inv_instrs)
  have 1: "time_label s = format_time (elapsed_before (instructions m) (nat (current_step s)))"
    if "instructions m = [] \<or> current_step s < int (length (instructions m))"
    using that d b by (auto simp: display_inv_def current_time_elapsed_before)
  have 2: "time_label s = format_time (elapsed_before (instructions m) (nat (current_step s) - 1))"
    if ne: "instructions m \<noteq> []" and e: "current_step s = int (length (instructions m))"
  proof -
    have "0 \<le> current_step s - 1" using ne e by (cases "instructions m") simp_all
    moreover have "nat (current_step s - 1) = nat (current_step s) - 1" by simp
    ultimately show ?thesis
      using d ne e current_time_elapsed_before [of "current_step s - 1" "instructions m"]
      by (simp add: display_inv_def)
  qed
  have 3: "\<exists>s'. update_display s = Inr s' \<and>
           time_label s' = format_time (elapsed_before (instructions m) (nat (current_step s)))"
    if "instructions m \<noteq> []"
    using that b(1) i by (simp add: update_display_eq refreshed_def current_time_elapsed_before)
  show ?thesis using 1 2 3 by blast
qed

text \<open>
  The last playing state and the completed state of the scenario both show 00:30, the sum
  over the first two instructions.
\<close>

theorem elapsed_time_display_witness:
  "reachable three_steps three_last \<and>
   current_step three_last < int (length (instructions three_steps)) \<and>
   time_label three_last = format_time (elapsed_before (instructions three_steps) 2) \<and>
   reachable three_steps three_complete \<and> instructions three_steps \<noteq> [] \<and>
   current_step three_complete = int (length (instructions three_steps)) \<and>
   time_label three_complete = format_time (elapsed_before (instructions three_steps) 2) \<and>
   format_time (elapsed_before (instructions three_steps) 2) = ''00:30''"
proof -
  have a: "current_step three_last < int (length (instructions three_steps))"
    "nat (current_step three_last) = 2"
    by (simp_all add: example_simps)
  have b: "instructions three_steps \<noteq> []"
    "current_step three_complete = int (length (instructions three_steps))"
    "nat (current_step three_complete) - 1 = 2"
    by (simp_all add: example_simps)
  have c: "format_time (elapsed_before (instructions three_steps) 2) = ''00:30''"
    by (simp add: example_simps elapsed_before_def player_simps)
  show ?thesis
    using elapsed_time_display [OF reachable_three_last]
      elapsed_time_display [OF reachable_three_complete]
      a b c reachable_three_last reachable_three_complete
    by simp
qed

text \<open>
  C5 as stated fails in the completed state of the scenario: the index is 3, the label
  shows 00:30, and the sum over the indices \<open>[0, 3)\<close> is 75 seconds, which would read 01:15.
\<close>

theorem elapsed_time_stale_when_complete:
  "reachable three_steps three_complete \<and> current_step three_complete = 3 \<and>
   time_label three_complete = ''00:30'' \<and>
   format_time (elapsed_before (instructions three_steps) 3) = ''01:15''"
  using reachable_three_complete
  by (simp add: example_simps elapsed_before_def player_simps)

section \<open>Completion\<close>

lemma fire_eq:
  assumes "player_inv m s" "h < length (timers s)" "is_pending (timers s ! h)"
  shows "step (TimerFire h) s =
     (if current_step s + 1 \<ge> int (length (instructions m))
      then Inr (meditation_complete
             (s\<lparr>timers := (timers s)[h := Fired], current_step := current_step s + 1\<rparr>))
      else start_current_step
             (s\<lparr>timers := (timers s)[h := Fired], current_step := current_step s + 1\<rparr>))"
proof -
  have "is_playing s" "session s = Some m" using assms by (auto simp: player_inv_def)
  then show ?thesis
    using assms(2,3) inv_instrs [OF assms(1)] by (simp add: advance_to_next_step_def Let_def)
qed

lemma fire_completes:
  assumes "player_inv m s" "h < length (timers s)" "is_pending (timers s ! h)"
    "current_step s + 1 = int (length (instructions m))"
  shows "\<exists>s'. step (TimerFire h) s = Inr s' \<and> mode_of s' = Complete \<and>
     current_step s' = int (length (instructions m)) \<and> timer s' = None \<and>
     pending_timers s' = [] \<and> instruction_label s' = complete_message \<and>
     play_button s' = BtnComplete"
proof -
  define s1 where "s1 = s\<lparr>timers := (timers s)[h := Fired], current_step := current_step s + 1\<rparr>"
  have e: "step (TimerFire h) s = Inr (meditation_complete s1)"
    using fire_eq [OF assms(1-3)] assms(4) by (simp add: s1_def)
  have p: "is_playing s" "\<not> is_paused s" "instructions m \<noteq> []" "session s = Some m"
    using assms by (auto simp: player_inv_def)
  have q: "only_pending None (timers s1)"
    using assms by (auto simp: s1_def player_inv_def intro: only_pending_fire)
  have "only_pending None (timers (meditation_complete s1))"
    using q by (simp add: meditation_complete_def stop_timer_eq cancelled_quiet)
  then have "pending_timers (meditation_complete s1) = []" by (rule pending_timers_empty)
  moreover have "mode_of (meditation_complete s1) = Complete"
    using p assms(4)
    by (simp add: mode_of_def meditation_complete_def stop_timer_eq s1_def instrs_of_def)
  moreover have "current_step (meditation_complete s1) = int (length (instructions m))"
    "timer (meditation_complete s1) = None"
    "instruction_label (meditation_complete s1) = complete_message"
    "play_button (meditation_complete s1) = BtnComplete"
    using assms(4) by (simp_all add: meditation_complete_def stop_timer_eq s1_def)
  ultimately show ?thesis using e by simp
qed

lemma fire_cases:
  assumes "player_inv m s" "step (TimerFire h) s = Inr s'"
  shows "s' = s \<or> (current_step s' = current_step s + 1 \<and>
     (current_step s' = int (length (instructions m)) \<longrightarrow>
        mode_of s' = Complete \<and> instruction_label s' = complete_message \<and>
        play_button s' = BtnComplete))"
proof (cases "h < length (timers s) \<and> is_pending (timers s ! h)")
  case False
  then show ?thesis using assms(2) by auto
next
  case True
  then have p: "h < length (timers s)" "is_pending (timers s ! h)" by simp_all
  show ?thesis
  proof (cases "current_step s + 1 = int (length (instructions m))")
    case True
    then show ?thesis using fire_completes [OF assms(1) p True] assms(2) by auto
  next
    case False
    have "current_step s < int (length (instructions m))"
      using assms(1) p by (auto simp: player_inv_def)
    then have "start_current_step
        (s\<lparr>timers := (timers s)[h := Fired], current_step := current_step s + 1\<rparr>) = Inr s'"
      using fire_eq [OF assms(1) p] assms(2) False by simp
    then have "current_step s' = current_step s + 1"
      using start_current_step_frame(2) by fastforce
    then show ?thesis using False by simp
  qed
qed

lemma toggle_frame: "toggle_play s = Inr s' \<Longrightarrow> current_step s' = current_step s"
proof -
  assume a: "toggle_play s = Inr s'"
  define s1 where "s1 = s\<lparr>is_playing := True, is_paused := False, play_button := BtnPause\<rparr>"
  have "s' = s \<or> s' = pause_meditation s \<or> s' = s1 \<or> start_current_step s1 = Inr s'"
    using a by (auto simp: toggle_play_def start_meditation_def Let_def s1_def split: if_splits)
  then show ?thesis
    using start_current_step_frame(2) [of s1 s']
    by (auto simp: pause_meditation_def stop_timer_eq s1_def)
qed

lemma previous_cases:
  "previous_step s = Inr s' \<Longrightarrow> s' = s \<or> (0 < current_step s \<and> current_step s' = current_step s - 1)"
  using moved_frame(1) [where s=s and k="current_step s - 1" and s'=s']
  by (auto simp: previous_step_def split: if_splits)

lemma next_cases:
  "next_step s = Inr s' \<Longrightarrow> s' = s \<or>
     (current_step s' = current_step s + 1 \<and> current_step s' < int (length (instrs_of s)))"
  using moved_frame(1) [where s=s and k="current_step s + 1" and s'=s']
  by (auto simp: next_step_def split: if_splits)

lemma restart_frame:
  assumes "restart s = Inr s'"
  shows "current_step s' = 0" "\<not> is_playing s'" "\<not> is_paused s'"
  using update_display_frame [OF assms [unfolded restart_def]] by (simp_all add: stop_timer_eq)

lemma create_index: "create (new_player (Some m)) = Inr s0 \<Longrightarrow> current_step s0 = 0"
  using update_display_frame(2) [of "new_player (Some m)" s0]
  by (simp add: create_def new_player_def)

text \<open>
  C10, as amended. In every reachable state the index is at least 0 and at most the length
  of the instruction list. The player of a non-empty list starts at the index 0, below the
  length. The index gets to the length only by a timer event, and that event completes
  the session: it leaves the mode Complete, the closing message on the instruction label
  and \<^verbatim>\<open>Complete\<close> on the button. Once there, the index stays until Previous or Restart,
  with the closing message on the label; and at that index the instruction list has no
  element (\<^verbatim>\<open>instructions[current_step]\<close> would raise).
\<close>

theorem current_step_bounds:
  assumes "reachable m s"
  shows "0 \<le> current_step s \<and> current_step s \<le> int (length (instructions m)) \<and>
     (instructions m \<noteq> [] \<and> current_step s = int (length (instructions m)) \<longrightarrow>
        instruction_label s = complete_message) \<and>
     (current_step s = int (length (instructions m)) \<longrightarrow>
        py_index (instructions m) (current_step s) = Inl IndexError) \<and>
     (\<forall>e s'. step e s = Inr s' \<and> current_step s \<noteq> int (length (instructions m)) \<and>
        current_step s' = int (length (instructions m)) \<longrightarrow>
        (\<exists>h. e = TimerFire h) \<and> mode_of s' = Complete \<and>
        instruction_label s' = complete_message \<and> play_button s' = BtnComplete) \<and>
     (\<forall>e s'. step e s = Inr s' \<and> instructions m \<noteq> [] \<and>
        current_step s = int (length (instructions m)) \<and> e \<noteq> PreviousStep \<and> e \<noteq> Restart \<longrightarrow>
        current_step s' = int (length (instructions m))) \<and>
     (\<forall>s0. instructions m \<noteq> [] \<and> create (new_player (Some m)) = Inr s0 \<longrightarrow>
        current_step s0 = 0 \<and> current_step s0 \<noteq> int (length (instructions m)))"
proof -
  have inv: "player_inv m s" using assms by (rule reachable_inv)
  have d: "display_inv m s" using assms by (rule reachable_display)
  have b: "0 \<le> current_step s" "current_step s \<le> int (length (instructions m))"
    using inv by (simp_all add: player_inv_def)
  have i: "instrs_of s = instructions m" using inv by (rule inv_instrs)
  have 3: "instructions m \<noteq> [] \<and> current_step s = int (length (instructions m)) \<longrightarrow>
        instruction_label s = complete_message"
    using d by (simp add: display_inv_def)
  have 4: "current_step s = int (length (instructions m)) \<longrightarrow>
        py_index (instructions m) (current_step s) = Inl IndexError"
    by (simp add: py_index_def)
  have 5: "(\<exists>h. e = TimerFire h) \<and> mode_of s' = Complete \<and>
        instruction_label s' = complete_message \<and> play_button s' = BtnComplete"
    if st: "step e s = Inr s'" and ne: "current_step s \<noteq> int (length (instructions m))"
      and en: "current_step s' = int (length (instructions m))" for e s'
  proof (cases e)
    case TogglePlay
    then show ?thesis using st ne en toggle_frame [of s s'] by simp
  next
    case PreviousStep
    then show ?thesis using st ne en b previous_cases [of s s'] by auto
  next
    case NextStep
    then show ?thesis using st ne en i next_cases [of s s'] by auto
  next
    case Restart
    then have "current_step s' = 0" using st restart_frame(1) [of s s'] by simp
    then have "instructions m = []" using en by simp
    then show ?thesis using b ne by simp
  next
    case (TimerFire h)
    then show ?thesis using st ne en fire_cases [OF inv, of h s'] by auto
  qed
  have 6: "current_step s' = int (length (instructions m))"
    if "step e s = Inr s'" "instructions m \<noteq> []"
      "current_step s = int (length (instructions m))" "e \<noteq> PreviousStep" "e \<noteq> Restart"
    for e s'
    using at_end_step [OF inv that(2,3,4,5)] that(1) by auto
  have 7: "current_step s0 = 0 \<and> current_step s0 \<noteq> int (length (instructions m))"
    if "instructions m \<noteq> []" "create (new_player (Some m)) = Inr s0" for s0
    using create_index [OF that(2)] that(1) by simp
  show ?thesis using b 3 4 5 6 7 by blast
qed

text \<open>
  The completed state of the scenario, the timer event that leads to it, Next in it, and
  the first state of the scenario.
\<close>

theorem current_step_bounds_witness:
  "reachable three_steps three_complete \<and> instructions three_steps \<noteq> [] \<and>
   0 \<le> current_step three_complete \<and>
   current_step three_complete = int (length (instructions three_steps)) \<and>
   instruction_label three_complete = complete_message \<and>
   py_index (instructions three_steps) (current_step three_complete) = Inl IndexError \<and>
   reachable three_steps three_last \<and> step (TimerFire 1) three_last = Inr three_complete \<and>
   current_step three_last \<noteq> int (length (instructions three_steps)) \<and>
   mode_of three_complete = Complete \<and> play_button three_complete = BtnComplete \<and>
   step TogglePlay three_complete = Inr three_replay \<and>
   current_step three_replay = int (length (instructions three_steps)) \<and>
   create (new_player (Some three_steps)) = Inr three_initial \<and>
   current_step three_initial = 0"
proof -
  have a: "instructions three_steps \<noteq> []"
    "current_step three_complete = int (length (instructions three_steps))"
    "current_step three_last \<noteq> int (length (instructions three_steps))"
    by (simp_all add: example_simps)
  note w1 = current_step_bounds [OF reachable_three_complete]
  note w2 = current_step_bounds [OF reachable_three_last]
  have 1: "0 \<le> current_step three_complete"
    "instruction_label three_complete = complete_message"
    "py_index (instructions three_steps) (current_step three_complete) = Inl IndexError"
    using w1 a by simp_all
  have 2: "mode_of three_complete = Complete \<and> play_button three_complete = BtnComplete"
    using w2 three_fire_1 a by blast
  have 3: "current_step three_replay = int (length (instructions three_steps))"
    using w1 three_play_at_end a by blast
  have 4: "current_step three_initial = 0"
    using w1 three_create a by blast
  show ?thesis
    using a 1 2 3 4 three_fire_1 three_play_at_end three_create
      reachable_three_complete reachable_three_last
    by blast
qed

text \<open>
  C10 as stated fails for a session without instructions: its player starts with the index
  0, which is the length of the list, and has completed nothing (it is idle, shows the
  invitation to click play and has never made a timer).
\<close>

theorem index_at_length_without_completion:
  "reachable no_steps no_steps_initial \<and>
   current_step no_steps_initial = int (length (instructions no_steps)) \<and>
   mode_of no_steps_initial = Idle \<and>
   instruction_label no_steps_initial = click_play_message \<and>
   play_button no_steps_initial = BtnStart \<and>
   timers no_steps_initial = []"
  using reachable_no_steps_initial by (simp add: example_simps mode_of_def)

text \<open>
  C3, as amended. For a non-empty instruction list: when the timer fires while the player
  is on the last instruction, the mode becomes Complete, with the index one past the end,
  \<^verbatim>\<open>self.timer\<close> cleared and no timer pending. A manual Next never leads to Complete: it
  either changes nothing or moves to a valid index. From a state at the end no sequence of
  events without Previous and Restart makes a timer or moves the index, so that no further
  auto-advance occurs.
\<close>

theorem completion_by_auto_advance_only:
  assumes "reachable m s" "instructions m \<noteq> []"
  shows "(\<forall>h. h < length (timers s) \<and> is_pending (timers s ! h) \<and>
          current_step s = int (length (instructions m)) - 1 \<longrightarrow>
          (\<exists>s'. step (TimerFire h) s = Inr s' \<and> mode_of s' = Complete \<and>
             current_step s' = int (length (instructions m)) \<and> timer s' = None \<and>
             pending_timers s' = [])) \<and>
     (\<forall>s'. step NextStep s = Inr s' \<longrightarrow>
          (s' = s \<or> current_step s' < int (length (instructions m))) \<and>
          (mode_of s' = Complete \<longrightarrow> s' = s)) \<and>
     (current_step s = int (length (instructions m)) \<longrightarrow>
        (\<forall>es. PreviousStep \<notin> set es \<and> Restart \<notin> set es \<longrightarrow>
           (\<exists>s'. run es s = Inr s' \<and> current_step s' = int (length (instructions m)) \<and>
              timers s' = timers s \<and> pending_timers s' = [])))"
proof -
  have inv: "player_inv m s" using assms(1) by (rule reachable_inv)
  have i: "instrs_of s = instructions m" using inv by (rule inv_instrs)
  have 1: "\<exists>s'. step (TimerFire h) s = Inr s' \<and> mode_of s' = Complete \<and>
             current_step s' = int (length (instructions m)) \<and> timer s' = None \<and>
             pending_timers s' = []"
    if "h < length (timers s)" "is_pending (timers s ! h)"
      "current_step s = int (length (instructions m)) - 1" for h
  proof -
    have "current_step s + 1 = int (length (instructions m))" using that(3) by simp
    from fire_completes [OF inv that(1,2) this] show ?thesis by blast
  qed
  have 2: "(s' = s \<or> current_step s' < int (length (instructions m))) \<and>
          (mode_of s' = Complete \<longrightarrow> s' = s)"
    if st: "step NextStep s = Inr s'" for s'
  proof -
    have c: "s' = s \<or> current_step s' < int (length (instructions m))"
      using st next_cases [of s s'] i by auto
    have "instrs_of s' = instructions m"
      using reachable_inv [OF reachable_step [OF assms(1) st]] by (rule inv_instrs)
    then have "mode_of s' = Complete \<longrightarrow> \<not> current_step s' < int (length (instructions m))"
      by (auto simp: mode_of_def split: if_splits)
    then show ?thesis using c by blast
  qed
  have 3: "\<exists>s'. run es s = Inr s' \<and> current_step s' = int (length (instructions m)) \<and>
              timers s' = timers s \<and> pending_timers s' = []"
    if e: "current_step s = int (length (instructions m))"
      and n: "PreviousStep \<notin> set es" "Restart \<notin> set es" for es
  proof -
    obtain s' where s': "run es s = Inr s'" "player_inv m s'"
      "current_step s' = int (length (instructions m))" "timers s' = timers s"
      using at_end_run [OF inv assms(2) e n] by blast
    have "pending_timers s' = []"
      using at_end_quiet [OF s'(2,3)] by (rule pending_timers_empty)
    then show ?thesis using s' by blast
  qed
  show ?thesis using 1 2 3 by blast
qed

text \<open>
  In the scenario: the timer of the last instruction completes the session, Next from the
  second instruction stops at the last one, and Play, Next, a timer event and Pause in the
  completed state leave the index and the timer objects alone.
\<close>

theorem completion_by_auto_advance_only_witness:
  "reachable three_steps three_last \<and> instructions three_steps \<noteq> [] \<and>
   1 < length (timers three_last) \<and> is_pending (timers three_last ! 1) \<and>
   current_step three_last = int (length (instructions three_steps)) - 1 \<and>
   (\<exists>s'. step (TimerFire 1) three_last = Inr s' \<and> mode_of s' = Complete \<and>
      current_step s' = int (length (instructions three_steps)) \<and> pending_timers s' = []) \<and>
   reachable three_steps three_second \<and> step NextStep three_second = Inr three_last \<and>
   current_step three_last < int (length (instructions three_steps)) \<and>
   reachable three_steps three_complete \<and>
   current_step three_complete = int (length (instructions three_steps)) \<and>
   (\<exists>s'. run [TogglePlay, NextStep, TimerFire 0, TogglePlay] three_complete = Inr s' \<and>
      current_step s' = int (length (instructions three_steps)) \<and>
      timers s' = timers three_complete \<and> pending_timers s' = [])"
proof -
  have ne: "instructions three_steps \<noteq> []" by (simp add: example_simps)
  have a: "1 < length (timers three_last)" "is_pending (timers three_last ! 1)"
    "current_step three_last = int (length (instructions three_steps)) - 1"
    by (simp_all add: example_simps)
  have b: "current_step three_complete = int (length (instructions three_steps))"
    by (simp add: example_simps)
  have c: "PreviousStep \<notin> set [TogglePlay, NextStep, TimerFire 0, TogglePlay]"
    "Restart \<notin> set [TogglePlay, NextStep, TimerFire 0, TogglePlay]"
    by simp_all
  note w1 = completion_by_auto_advance_only [OF reachable_three_last ne]
  note w2 = completion_by_auto_advance_only [OF reachable_three_second ne]
  note w3 = completion_by_auto_advance_only [OF reachable_three_complete ne]
  have 1: "\<exists>s'. step (TimerFire 1) three_last = Inr s' \<and> mode_of s' = Complete \<and>
      current_step s' = int (length (instructions three_steps)) \<and> pending_timers s' = []"
    using w1 a by blast
  have "three_last = three_second \<or> current_step three_last < int (length (instructions three_steps))"
    using w2 three_next by blast
  then have 2: "current_step three_last < int (length (instructions three_steps))"
    using a(3) by auto
  have 3: "\<exists>s'. run [TogglePlay, NextStep, TimerFire 0, TogglePlay] three_complete = Inr s' \<and>
      current_step s' = int (length (instructions three_steps)) \<and>
      timers s' = timers three_complete \<and> pending_timers s' = []"
    using w3 b c by blast
  show ?thesis
    using ne a b 1 2 3 three_next reachable_three_last reachable_three_second
      reachable_three_complete by blast
qed

text \<open>
  C3 as stated fails twice in the scenario. Next reaches the last instruction and the mode
  stays Playing; Next on the last instruction changes nothing. And after the session has
  completed, Previous and Play arm a timer whose firing advances and completes a second
  time, with no Restart in between.
\<close>

theorem next_does_not_complete_and_completion_recurs:
  "step NextStep three_second = Inr three_last \<and>
   current_step three_last = int (length (instructions three_steps)) - 1 \<and>
   mode_of three_last = Playing \<and>
   step NextStep three_last = Inr three_last \<and>
   step (TimerFire 1) three_last = Inr three_complete \<and>
   mode_of three_complete = Complete \<and>
   step PreviousStep three_complete = Inr three_back \<and>
   step TogglePlay three_back = Inr three_again \<and>
   mode_of three_again = Playing \<and>
   step (TimerFire 2) three_again = Inr three_twice \<and>
   current_step three_again = 2 \<and> current_step three_twice = 3 \<and>
   mode_of three_twice = Complete"
proof -
  have "step NextStep three_last = Inr three_last"
    by (simp add: player_simps example_simps)
  moreover have "current_step three_last = int (length (instructions three_steps)) - 1"
    "mode_of three_last = Playing" "mode_of three_complete = Complete"
    "mode_of three_again = Playing" "current_step three_again = 2"
    "current_step three_twice = 3" "mode_of three_twice = Complete"
    by (simp_all add: example_simps mode_of_def instrs_of_def)
  ultimately show ?thesis
    using three_next three_fire_1 three_previous three_play_again three_fire_2 by blast
qed

section \<open>After completion\<close>




section \<open>Arming the timer of a step\<close>

lemma pending_timers_armed:
  assumes "only_pending None (timers s)"
  shows "pending_timers (arm_timer d s) = [length (timers s)]"
proof -
  have "filter (\<lambda>h. is_pending ((timers s @ [Pending d]) ! h)) [0..<length (timers s)] = []"
    using assms by (auto simp: filter_empty_conv nth_append dest: only_pending_NoneD)
  then show ?thesis by (simp add: pending_timers_def arm_timer_def)
qed

lemma started_outcome:
  assumes "session s0 = Some m" "0 \<le> current_step s0"
    "current_step s0 < int (length (instructions m))" "only_pending None (timers s0)"
    "length (timers s0) = length (timers s)" "start_current_step s0 = Inr s'"
  shows "current_step s' = current_step s0 \<and> is_playing s' = is_playing s0 \<and> arming_outcome m s s'"
proof -
  have i: "instrs_of s0 = instructions m" using assms(1) by (simp add: instrs_of_def)
  have ne: "instrs_of s0 \<noteq> []" using assms(2,3) i by auto
  have q: "only_pending None (timers (refreshed s0))" using assms(4) by simp
  have e: "s' = (case duration_seconds (instructions m ! nat (current_step s0)) of
            None \<Rightarrow> refreshed s0
          | Some d \<Rightarrow> if 0 < d then arm_timer d (refreshed s0) else refreshed s0)"
    using start_current_step_eq [OF ne assms(2)] assms(3,6) i by simp
  have p0: "pending_timers (refreshed s0) = []" using q by (rule pending_timers_empty)
  have p1: "pending_timers (arm_timer d (refreshed s0)) = [length (timers s)]" for d
    using pending_timers_armed [OF q, of d] assms(5) by simp
  show ?thesis
  proof (cases "duration_seconds (instructions m ! nat (current_step s0))")
    case None
    then show ?thesis using e p0 assms(5) by (simp add: arming_outcome_def)
  next
    case (Some d)
    show ?thesis
    proof (cases "0 < d")
      case True
      then have s': "s' = arm_timer d (refreshed s0)" using e Some by simp
      have f: "current_step s' = current_step s0" "is_playing s' = is_playing s0"
        "length (timers s') = Suc (length (timers s))" "timers s' ! length (timers s) = Pending d"
        "timer s' = Some (length (timers s))"
        using assms(5) by (simp_all add: s' arm_timer_def nth_append)
      show ?thesis using f p1 [of d] Some True by (simp add: arming_outcome_def s')
    next
      case False
      then have "s' = refreshed s0" using e Some by simp
      then show ?thesis using p0 assms(5) Some False by (simp add: arming_outcome_def)
    qed
  qed
qed

lemma moved_outcome:
  assumes "player_inv m s" "0 \<le> k" "k < int (length (instructions m))"
    "(case update_display ((stop_timer s)\<lparr>current_step := k\<rparr>) of
              Inl e \<Rightarrow> Inl e
            | Inr s1 \<Rightarrow> if is_playing s1 then start_current_step s1 else Inr s1) = Inr s'"
    "is_playing s'"
  shows "arming_outcome m s s'"
proof -
  define s0 where "s0 = refreshed ((stop_timer s)\<lparr>current_step := k\<rparr>)"
  have u: "update_display ((stop_timer s)\<lparr>current_step := k\<rparr>) = Inr s0"
    using assms(2) by (simp add: update_display_eq s0_def)
  have f: "session s0 = Some m" "current_step s0 = k" "length (timers s0) = length (timers s)"
    using assms(1) by (simp_all add: s0_def stop_timer_eq player_inv_def)
  have q: "only_pending None (timers s0)"
    using assms(1) by (simp add: s0_def stop_timer_eq player_inv_def only_pending_cancelled)
  have r: "(if is_playing s0 then start_current_step s0 else Inr s0) = Inr s'"
    using assms(4) u by simp
  have "is_playing s0" using r assms(5) by (cases "is_playing s0") auto
  then have "start_current_step s0 = Inr s'" using r by simp
  then show ?thesis
    using started_outcome [of s0 m s s'] f q assms(2,3) by simp
qed

lemma play_outcome:
  assumes "player_inv m s" "\<not> is_playing s" "current_step s < int (length (instructions m))"
  shows "\<exists>s'. step TogglePlay s = Inr s' \<and> is_playing s' \<and> current_step s' = current_step s \<and>
     arming_outcome m s s'"
proof -
  define s1 where "s1 = s\<lparr>is_playing := True, is_paused := False, play_button := BtnPause\<rparr>"
  have i: "instrs_of s = instructions m" using assms(1) by (rule inv_instrs)
  have b: "session s = Some m" "0 \<le> current_step s" using assms(1) by (simp_all add: player_inv_def)
  have ne: "instructions m \<noteq> []" using assms(3) b by auto
  have q: "only_pending None (timers s1)"
    using inv_idle_no_pending [OF assms(1,2)] by (simp add: s1_def)
  have t: "step TogglePlay s = start_current_step s1"
    using assms(2,3) i ne by (simp add: toggle_play_def start_meditation_def Let_def s1_def)
  obtain s' where s': "start_current_step s1 = Inr s'"
    using inv_toggle [OF assms(1)] t by auto
  have "current_step s' = current_step s1 \<and> is_playing s' = is_playing s1 \<and> arming_outcome m s s'"
    using started_outcome [of s1 m s s'] s' q b assms(3) by (simp add: s1_def)
  then show ?thesis using t s' by (simp add: s1_def del: step.simps)
qed

lemma entry_outcome:
  assumes "player_inv m s" "step e s = Inr s'" "is_playing s'"
    "current_step s' < int (length (instructions m))" "current_step s' \<noteq> current_step s"
  shows "arming_outcome m s s'"
proof (cases e)
  case TogglePlay
  then show ?thesis using assms(2,5) toggle_frame [of s s'] by simp
next
  case PreviousStep
  have b: "0 \<le> current_step s" "current_step s \<le> int (length (instructions m))"
    using assms(1) by (simp_all add: player_inv_def)
  have pos: "0 < current_step s"
    using assms(2,5) PreviousStep by (auto simp: previous_step_def split: if_splits)
  then show ?thesis
    using moved_outcome [OF assms(1), of "current_step s - 1" s'] assms(2,3) PreviousStep b
    by (simp add: previous_step_def)
next
  case NextStep
  have b: "0 \<le> current_step s" using assms(1) by (simp add: player_inv_def)
  have i: "instrs_of s = instructions m" using assms(1) by (rule inv_instrs)
  have lt: "instrs_of s \<noteq> [] \<and> current_step s < int (length (instructions m)) - 1"
    using assms(2,5) NextStep i by (auto simp: next_step_def split: if_splits)
  then show ?thesis
    using moved_outcome [OF assms(1), of "current_step s + 1" s'] assms(2,3) NextStep b i
    by (simp add: next_step_def)
next
  case Restart
  then show ?thesis using assms(2,3) restart_frame(2) [of s s'] by simp
next
  case (TimerFire h)
  have p: "h < length (timers s)" "is_pending (timers s ! h)"
    using assms(2,5) TimerFire by (auto split: if_splits)
  define s1 where "s1 = s\<lparr>timers := (timers s)[h := Fired], current_step := current_step s + 1\<rparr>"
  have b: "session s = Some m" "0 \<le> current_step s" using assms(1) by (simp_all add: player_inv_def)
  have q: "only_pending None (timers s1)"
    using assms(1) p by (auto simp: s1_def player_inv_def intro: only_pending_fire)
  have e: "step (TimerFire h) s =
     (if current_step s + 1 \<ge> int (length (instructions m))
      then Inr (meditation_complete s1) else start_current_step s1)"
    using fire_eq [OF assms(1) p] by (simp add: s1_def)
  have "\<not> current_step s + 1 \<ge> int (length (instructions m))"
  proof
    assume "current_step s + 1 \<ge> int (length (instructions m))"
    then have "s' = meditation_complete s1" using e assms(2) TimerFire by simp
    then have "\<not> is_playing s'" by (simp add: meditation_complete_def stop_timer_eq)
    then show False using assms(3) by simp
  qed
  then have "start_current_step s1 = Inr s'" using e assms(2) TimerFire by simp
  then show ?thesis
    using started_outcome [of s1 m s s'] q b \<open>\<not> current_step s + 1 \<ge> int (length (instructions m))\<close>
    by (simp add: s1_def)
qed

text \<open>
  C6. A timer is armed exactly when the \<open>duration_seconds\<close> of the instruction that is
  entered is present and strictly positive. This holds of \<^verbatim>\<open>_start_current_step\<close> at any
  valid index; of Play in every reachable state that is not playing and has a current
  instruction; and of every event (Next, Previous, a timer firing) that leaves a reachable
  player playing on another instruction. In each case a positive duration leaves exactly
  one pending timer, newly made, with that duration; a null or zero duration makes no
  timer and leaves none pending. A reachable state that is playing an instruction with a
  null or zero duration has no pending timer: no number of timer events moves it, it stays
  on the step until the user acts.
\<close>

theorem timer_armed_iff_positive_duration:
  "(session s = Some m \<and> 0 \<le> current_step s \<and> current_step s < int (length (instructions m)) \<longrightarrow>
      (\<exists>s'. start_current_step s = Inr s' \<and> current_step s' = current_step s \<and>
         (case duration_seconds (instructions m ! nat (current_step s)) of
            None \<Rightarrow> timers s' = timers s \<and> timer s' = timer s
          | Some d \<Rightarrow>
              if 0 < d
              then timers s' = timers s @ [Pending d] \<and> timer s' = Some (length (timers s))
              else timers s' = timers s \<and> timer s' = timer s))) \<and>
   (reachable m s \<longrightarrow>
      (\<not> is_playing s \<and> current_step s < int (length (instructions m)) \<longrightarrow>
         (\<exists>s'. step TogglePlay s = Inr s' \<and> is_playing s' \<and>
            current_step s' = current_step s \<and> arming_outcome m s s')) \<and>
      (\<forall>e s'. step e s = Inr s' \<and> is_playing s' \<and>
          current_step s' < int (length (instructions m)) \<and> current_step s' \<noteq> current_step s \<longrightarrow>
          arming_outcome m s s') \<and>
      (is_playing s \<and> current_step s < int (length (instructions m)) \<and>
       (\<forall>d. duration_seconds (instructions m ! nat (current_step s)) = Some d \<longrightarrow> d \<le> 0) \<longrightarrow>
         pending_timers s = [] \<and> (\<forall>hs. run (map TimerFire hs) s = Inr s)))"
proof -
  have 1: "\<exists>s'. start_current_step s = Inr s' \<and> current_step s' = current_step s \<and>
         (case duration_seconds (instructions m ! nat (current_step s)) of
            None \<Rightarrow> timers s' = timers s \<and> timer s' = timer s
          | Some d \<Rightarrow>
              if 0 < d
              then timers s' = timers s @ [Pending d] \<and> timer s' = Some (length (timers s))
              else timers s' = timers s \<and> timer s' = timer s)"
    if a: "session s = Some m" "0 \<le> current_step s" "current_step s < int (length (instructions m))"
  proof -
    have i: "instrs_of s = instructions m" using a(1) by (simp add: instrs_of_def)
    have ne: "instrs_of s \<noteq> []" using a i by auto
    have eq: "start_current_step s =
       Inr (case duration_seconds (instructions m ! nat (current_step s)) of
              None \<Rightarrow> refreshed s
            | Some d \<Rightarrow> if 0 < d then arm_timer d (refreshed s) else refreshed s)"
      using start_current_step_eq [OF ne a(2)] a(3) i by simp
    show ?thesis unfolding eq by (simp add: arm_timer_def split: option.splits)
  qed
  have 2: "\<exists>s'. step TogglePlay s = Inr s' \<and> is_playing s' \<and>
            current_step s' = current_step s \<and> arming_outcome m s s'"
    if "reachable m s" "\<not> is_playing s" "current_step s < int (length (instructions m))"
    using play_outcome [OF reachable_inv [OF that(1)] that(2,3)] .
  have 3: "arming_outcome m s s'"
    if "reachable m s" "step e s = Inr s'" "is_playing s'"
      "current_step s' < int (length (instructions m))" "current_step s' \<noteq> current_step s"
    for e s'
    using entry_outcome [OF reachable_inv [OF that(1)] that(2-5)] .
  have 4: "pending_timers s = [] \<and> (\<forall>hs. run (map TimerFire hs) s = Inr s)"
    if r: "reachable m s"
      and z: "\<forall>d. duration_seconds (instructions m ! nat (current_step s)) = Some d \<longrightarrow> d \<le> 0"
  proof -
    have inv: "player_inv m s" using r by (rule reachable_inv)
    have q: "only_pending None (timers s)"
      unfolding only_pending_def
    proof (intro allI impI)
      fix h assume h: "h < length (timers s)" "is_pending (timers s ! h)"
      then obtain d where "0 < d" "duration_seconds (instructions m ! nat (current_step s)) = Some d"
        using inv by (auto simp: player_inv_def)
      then have False using z by auto
      then show "None = Some h" ..
    qed
    show ?thesis using q by (simp add: pending_timers_empty quiet_run_fires)
  qed
  show ?thesis using 1 2 3 4 by blast
qed

text \<open>
  In the scenario: Play on the first instruction (30 seconds) arms a timer of 30 seconds;
  its firing enters the second instruction (0 seconds) and arms nothing, and no timer event
  moves the player from there; Next enters the third instruction (45 seconds) and arms a
  timer of 45 seconds.
\<close>

theorem timer_armed_iff_positive_duration_witness:
  "reachable three_steps three_initial \<and> \<not> is_playing three_initial \<and>
   current_step three_initial < int (length (instructions three_steps)) \<and>
   duration_seconds (instructions three_steps ! nat (current_step three_initial)) = Some 30 \<and>
   step TogglePlay three_initial = Inr three_playing \<and> is_playing three_playing \<and>
   timers three_playing ! length (timers three_initial) = Pending 30 \<and>
   pending_timers three_playing = [length (timers three_initial)] \<and>
   reachable three_steps three_playing \<and>
   step (TimerFire 0) three_playing = Inr three_second \<and> is_playing three_second \<and>
   current_step three_second \<noteq> current_step three_playing \<and>
   duration_seconds (instructions three_steps ! nat (current_step three_second)) = Some 0 \<and>
   length (timers three_second) = length (timers three_playing) \<and>
   pending_timers three_second = [] \<and>
   run [TimerFire 0] three_second = Inr three_second \<and>
   reachable three_steps three_second \<and>
   step NextStep three_second = Inr three_last \<and>
   duration_seconds (instructions three_steps ! nat (current_step three_last)) = Some 45 \<and>
   timers three_last ! length (timers three_second) = Pending 45 \<and>
   pending_timers three_last = [length (timers three_second)] \<and>
   session three_second = Some three_steps \<and>
   (\<exists>s'. start_current_step three_second = Inr s' \<and> timers s' = timers three_second)"
proof -
  have a: "\<not> is_playing three_initial"
    "current_step three_initial < int (length (instructions three_steps))"
    "duration_seconds (instructions three_steps ! nat (current_step three_initial)) = Some 30"
    by (simp_all add: example_simps)
  have b: "is_playing three_second" "current_step three_second \<noteq> current_step three_playing"
    "current_step three_second < int (length (instructions three_steps))"
    "duration_seconds (instructions three_steps ! nat (current_step three_second)) = Some 0"
    "session three_second = Some three_steps" "0 \<le> current_step three_second"
    by (simp_all add: example_simps)
  have c: "is_playing three_last" "current_step three_last \<noteq> current_step three_second"
    "current_step three_last < int (length (instructions three_steps))"
    "duration_seconds (instructions three_steps ! nat (current_step three_last)) = Some 45"
    by (simp_all add: example_simps)
  note w0 = timer_armed_iff_positive_duration [of three_initial three_steps]
  note w1 = timer_armed_iff_positive_duration [of three_playing three_steps]
  note w2 = timer_armed_iff_positive_duration [of three_second three_steps]
  obtain s' where "step TogglePlay three_initial = Inr s'" "is_playing s'"
    "arming_outcome three_steps three_initial s'"
    using w0 reachable_three_initial a by blast
  then have p: "is_playing three_playing" "arming_outcome three_steps three_initial three_playing"
    using three_play by simp_all
  have 1: "timers three_playing ! length (timers three_initial) = Pending 30"
    "pending_timers three_playing = [length (timers three_initial)]"
    using p(2) a(3) by (simp_all add: arming_outcome_def example_simps)
  have "arming_outcome three_steps three_playing three_second"
    using w1 reachable_three_playing three_fire_0 b by blast
  then have 2: "length (timers three_second) = length (timers three_playing)"
    "pending_timers three_second = []"
    using b(4) by (simp_all add: arming_outcome_def)
  have "\<forall>hs. run (map TimerFire hs) three_second = Inr three_second"
    using w2 reachable_three_second b by simp
  then have "run (map TimerFire [0]) three_second = Inr three_second" by blast
  then have 3: "run [TimerFire 0] three_second = Inr three_second" by simp
  have "arming_outcome three_steps three_second three_last"
    using w2 reachable_three_second three_next c by blast
  then have 4: "timers three_last ! length (timers three_second) = Pending 45"
    "pending_timers three_last = [length (timers three_second)]"
    using c(4) by (simp_all add: arming_outcome_def)
  have 5: "\<exists>s'. start_current_step three_second = Inr s' \<and> timers s' = timers three_second"
    using w2 b by auto
  show ?thesis
    using a b c p(1) 1 2 3 4 5 three_play three_fire_0 three_next
      reachable_three_initial reachable_three_playing reachable_three_second
    by blast
qed

section \<open>Boundary and empty-list transitions\<close>

text \<open>
  C7. Next on the last instruction, Previous on the first instruction and the play toggle
  of a player without instructions each return the state they were given: index, flags,
  timer reference, timer objects and labels are all unchanged, and no error is raised.
\<close>

theorem boundary_transitions_are_noops:
  "(current_step s = int (length (instrs_of s)) - 1 \<longrightarrow> next_step s = Inr s) \<and>
   (current_step s = 0 \<longrightarrow> previous_step s = Inr s) \<and>
   (instrs_of s = [] \<longrightarrow> toggle_play s = Inr s)"
  by (simp add: next_step_def previous_step_def toggle_play_def)

text \<open>The three cases at the last state of the scenario before completion, at its first
  playing state, and at the player of a session without instructions.\<close>

theorem boundary_transitions_are_noops_witness:
  "current_step three_last = int (length (instrs_of three_last)) - 1 \<and>
   next_step three_last = Inr three_last \<and>
   current_step three_playing = 0 \<and> previous_step three_playing = Inr three_playing \<and>
   instrs_of no_steps_initial = [] \<and> toggle_play no_steps_initial = Inr no_steps_initial"
proof -
  have a: "current_step three_last = int (length (instrs_of three_last)) - 1"
    by (simp add: example_simps instrs_of_def)
  have b: "current_step three_playing = 0" by (simp add: example_simps)
  have c: "instrs_of no_steps_initial = []" by (simp add: example_simps instrs_of_def)
  show ?thesis
    using a b c boundary_transitions_are_noops [of three_last]
      boundary_transitions_are_noops [of three_playing]
      boundary_transitions_are_noops [of no_steps_initial]
    by simp
qed

section \<open>Fetching a session\<close>

text \<open>
  The mapping that models.py declares cannot be configured: \<^verbatim>\<open>MeditationCategory.sessions\<close>
  names \<^verbatim>\<open>categories\<close> as its counterpart, and \<^verbatim>\<open>MeditationSession\<close> has no mapped
  relationship of that name.
\<close>

lemma configure_mappers_fails: "configure_mappers models_relationships = Inl InvalidRequestError"
  by (simp add: configure_mappers_def models_relationships_def)

text \<open>The query of \<^verbatim>\<open>get_session_by_id\<close> itself returns the rows of the session sorted by
  \<open>step_order\<close>, whatever the order of the table.\<close>

lemma select_instructions_sorted:
  "sorted (map step_order (select_instructions db sid)) \<and>
   mset (select_instructions db sid) =
     mset (filter (\<lambda>i. session_id i = sid) (instruction_table db))"
  by (simp add: select_instructions_def sorted_sort_key)

text \<open>
  C8. The claim is that \<^verbatim>\<open>get_session_by_id\<close> returns a stored session with its
  instructions sorted by \<open>step_order\<close>, and the query is written to do so: on the store of
  the ordering test (instructions inserted in the order 3, 1, 2) it selects them in the
  order 1, 2, 3. But the function never gets as far as the query: its first use of a mapped
  class raises \<^verbatim>\<open>InvalidRequestError\<close>, as \<^verbatim>\<open>create_session\<close> does before it.
\<close>

theorem get_session_raises_for_stored_session:
  "session_table ordered_db 1 = Some ordered_session \<and>
   map step_order (instruction_table ordered_db) = [3, 1, 2] \<and>
   map step_order (select_instructions ordered_db 1) = [1, 2, 3] \<and>
   get_session_by_id ordered_db (Some 1) = Inl InvalidRequestError \<and>
   create_session empty_db ordered_session_data = Inl InvalidRequestError"
  by (simp add: db_simps get_session_by_id_def create_session_def configure_mappers_fails)

text \<open>
  C9. The claim is that \<^verbatim>\<open>get_session_by_id\<close> returns \<^verbatim>\<open>None\<close> for \<^verbatim>\<open>None\<close> and for an id
  that is not stored, and never raises. For \<^verbatim>\<open>None\<close> it does. For an id, stored or not,
  it raises \<^verbatim>\<open>InvalidRequestError\<close>.
\<close>

theorem get_session_raises_for_every_id:
  "get_session_by_id db None = Inr None \<and>
   get_session_by_id db (Some sid) = Inl InvalidRequestError"
  by (simp add: get_session_by_id_def configure_mappers_fails)

end
